(* ===== verification/Prelude.thy ===== *)
theory Prelude
  imports Complex_Main
begin

text \<open>
  Shared vocabulary of the development: the JavaScript runtime notions that
  \<^verbatim>\<open>src/ui_implementations/react_app/src/App.js\<close> relies on.
  \<^item> A JavaScript object used as a dictionary (\<^verbatim>\<open>responses\<close>, \<^verbatim>\<open>debateState\<close>, the
    accumulator of \<^verbatim>\<open>categorizedModels\<close>) is an association list in key-insertion
    order: \<open>obj_set\<close> is \<^verbatim>\<open>{...prev, [k]: v}\<close> (an existing key keeps its position,
    a new key goes last), \<open>obj_spread\<close> is \<^verbatim>\<open>{...prev, ...data}\<close>, \<open>obj_get\<close> is a
    property read (\<open>None\<close> for \<^verbatim>\<open>undefined\<close>), and \<open>js_entries\<close> is the order in which
    \<^verbatim>\<open>Object.entries\<close> lists the keys (array-index keys ascending first, then the
    others in insertion order).
  \<^item> \<open>js_or_str\<close> is the \<^verbatim>\<open>||\<close> default on a possibly absent string (the empty string
    is falsy).
  \<^item> \<open>js_trim\<close> is \<^verbatim>\<open>String.prototype.trim\<close> on the ASCII white space and line
    terminators.
  \<^item> \<open>nat_to_dec\<close> is \<^verbatim>\<open>Number.prototype.toString\<close> on naturals (as used by template
    literals), with its inverse \<open>dec_to_nat\<close>.
  The lemmas about them are collected in \<open>js_simps\<close>, which the component theories
  pass to \<open>simp\<close>.
\<close>

named_theorems js_simps "equations of the JavaScript runtime model"

type_synonym model_name = string
type_synonym 'v js_object = "(string \<times> 'v) list"

section \<open>Objects as insertion-ordered dictionaries\<close>

definition obj_get :: "'v js_object \<Rightarrow> string \<Rightarrow> 'v option" where
  "obj_get ob k = map_of ob k"

fun obj_set :: "'v js_object \<Rightarrow> string \<Rightarrow> 'v \<Rightarrow> 'v js_object" where
  "obj_set [] k v = [(k, v)]"
| "obj_set ((k', v') # kvs) k v =
     (if k' = k then (k, v) # kvs else (k', v') # obj_set kvs k v)"

definition obj_spread :: "'v js_object \<Rightarrow> 'v js_object \<Rightarrow> 'v js_object" where
  "obj_spread prev data = foldl (\<lambda>acc (k, v). obj_set acc k v) prev data"

definition obj_keys :: "'v js_object \<Rightarrow> string list" where
  "obj_keys ob = map fst ob"

text \<open>
  The keys of an object built by repeated \<open>obj_set\<close> appear in the order of their first
  insertion: the list without its later duplicates.
\<close>

definition first_occurrences :: "'a list \<Rightarrow> 'a list" where
  "first_occurrences xs = rev (remdups (rev xs))"

section \<open>Numbers as decimal strings\<close>

definition digit_char :: "nat \<Rightarrow> char" where
  "digit_char d = char_of (48 + d)"

fun nat_to_dec :: "nat \<Rightarrow> string" where
  "nat_to_dec n =
     (if n < 10 then [digit_char n] else nat_to_dec (n div 10) @ [digit_char (n mod 10)])"

declare nat_to_dec.simps [simp del]

definition digit_val :: "char \<Rightarrow> nat option" where
  "digit_val c =
     (let k = (of_char c :: nat) in if 48 \<le> k \<and> k < 58 then Some (k - 48) else None)"

fun dec_acc :: "nat \<Rightarrow> string \<Rightarrow> nat option" where
  "dec_acc acc [] = Some acc"
| "dec_acc acc (c # cs) =
     (case digit_val c of None \<Rightarrow> None | Some d \<Rightarrow> dec_acc (10 * acc + d) cs)"

definition dec_to_nat :: "string \<Rightarrow> nat option" where
  "dec_to_nat s = (if s = [] then None else dec_acc 0 s)"

text \<open>
  A property key is an array index when it is the canonical decimal form of a
  number below \<open>2\<^sup>3\<^sup>2 - 1\<close>; \<^verbatim>\<open>Object.entries\<close> lists those keys first, ascending.
\<close>

definition is_array_index :: "string \<Rightarrow> bool" where
  "is_array_index k =
     (case dec_to_nat k of None \<Rightarrow> False | Some n \<Rightarrow> nat_to_dec n = k \<and> n < 4294967295)"

definition js_entries :: "'v js_object \<Rightarrow> 'v js_object" where
  "js_entries ob =
     sort_key (\<lambda>(k, v). the (dec_to_nat k)) (filter (\<lambda>(k, v). is_array_index k) ob)
     @ filter (\<lambda>(k, v). \<not> is_array_index k) ob"

text \<open>
  A property read \<^verbatim>\<open>acc[k]\<close> on an object created by \<^verbatim>\<open>{}\<close> falls back to
  \<^verbatim>\<open>Object.prototype\<close> when \<open>k\<close> is not an own key; these are its property names.
  Calling a method the value does not have raises \<^verbatim>\<open>TypeError\<close>.
\<close>

definition object_prototype_keys :: "string list" where
  "object_prototype_keys =
     [''constructor'', ''__proto__'', ''hasOwnProperty'', ''isPrototypeOf'',
      ''propertyIsEnumerable'', ''toString'', ''valueOf'', ''toLocaleString'',
      ''__defineGetter__'', ''__defineSetter__'', ''__lookupGetter__'', ''__lookupSetter__'']"

datatype js_error = TypeError

section \<open>Falsy defaults and trimming\<close>

definition js_or_str :: "string option \<Rightarrow> string \<Rightarrow> string" where
  "js_or_str s d = (case s of None \<Rightarrow> d | Some t \<Rightarrow> if t = [] then d else t)"

definition is_js_space :: "char \<Rightarrow> bool" where
  "is_js_space c = (let k = (of_char c :: nat) in (9 \<le> k \<and> k \<le> 13) \<or> k = 32)"

definition js_trim :: "string \<Rightarrow> string" where
  "js_trim s = rev (dropWhile is_js_space (rev (dropWhile is_js_space s)))"

section \<open>Lemmas on objects\<close>

lemma obj_get_set [simp, js_simps]:
  "obj_get (obj_set ob k v) k' = (if k' = k then Some v else obj_get ob k')"
  by (induction ob k v rule: obj_set.induct) (auto simp: obj_get_def)

lemma obj_keys_set [js_simps]:
  "obj_keys (obj_set ob k v) =
     (if k \<in> set (obj_keys ob) then obj_keys ob else obj_keys ob @ [k])"
  by (induction ob k v rule: obj_set.induct) (auto simp: obj_keys_def)

lemma set_obj_keys_set [simp, js_simps]:
  "set (obj_keys (obj_set ob k v)) = insert k (set (obj_keys ob))"
  by (auto simp: obj_keys_set)

lemma distinct_obj_keys_set [simp, js_simps]:
  "distinct (obj_keys ob) \<Longrightarrow> distinct (obj_keys (obj_set ob k v))"
  by (simp add: obj_keys_set)

lemma obj_set_idem [simp, js_simps]:
  "obj_set (obj_set ob k v) k v = obj_set ob k v"
  by (induction ob k v rule: obj_set.induct) auto

lemma obj_get_empty [simp, js_simps]: "obj_get [] k = None"
  by (simp add: obj_get_def)

lemma obj_keys_empty [simp, js_simps]: "obj_keys [] = []"
  by (simp add: obj_keys_def)

lemma obj_keys_Cons [simp, js_simps]: "obj_keys (kv # ob) = fst kv # obj_keys ob"
  by (simp add: obj_keys_def)

lemma obj_spread_Cons [simp, js_simps]:
  "obj_spread prev (kv # data) = obj_spread (obj_set prev (fst kv) (snd kv)) data"
  by (simp add: obj_spread_def split_beta)

lemma obj_spread_Nil [simp, js_simps]: "obj_spread prev [] = prev"
  by (simp add: obj_spread_def)

lemma obj_get_set_fun: "obj_get (obj_set ob k v) = (obj_get ob)(k \<mapsto> v)"
  by (simp add: fun_eq_iff)

lemma obj_get_spread [js_simps]:
  "obj_get (obj_spread prev data) = map_of prev ++ map_of (rev data)"
proof (induction data arbitrary: prev rule: rev_induct)
  case Nil
  then show ?case by (simp add: obj_get_def)
next
  case (snoc kv data)
  obtain k v where kv: "kv = (k, v)" by (cases kv)
  have "obj_get (obj_spread prev (data @ [kv])) = obj_get (obj_set (obj_spread prev data) k v)"
    by (simp add: obj_spread_def kv)
  also have "\<dots> = (map_of prev ++ map_of (rev data))(k \<mapsto> v)"
    by (simp add: obj_get_set_fun snoc.IH)
  also have "\<dots> = map_of prev ++ map_of (rev (data @ [kv]))"
    by (simp add: kv)
  finally show ?case .
qed

lemma distinct_obj_keys_spread [js_simps]:
  "distinct (obj_keys prev) \<Longrightarrow> distinct (obj_keys (obj_spread prev data))"
  by (induction data arbitrary: prev) auto

lemma set_obj_keys_spread [js_simps]:
  "set (obj_keys (obj_spread prev data)) = set (obj_keys prev) \<union> set (obj_keys data)"
  by (induction data arbitrary: prev) auto

lemma obj_set_map_keys [js_simps]:
  "distinct ks \<Longrightarrow> obj_set (map (\<lambda>c. (c, f c)) ks) k v =
     (if k \<in> set ks then map (\<lambda>c. (c, (f(k := v)) c)) ks else map (\<lambda>c. (c, f c)) ks @ [(k, v)])"
  by (induction ks) auto

lemma map_of_map_keys_iff [js_simps]:
  "map_of (map (\<lambda>c. (c, f c)) ks) k = (if k \<in> set ks then Some (f k) else None)"
  by (simp add: map_of_map_restrict restrict_map_def)

section \<open>Lemmas on first occurrences\<close>

lemma first_occurrences_snoc [simp]:
  "first_occurrences (xs @ [x]) =
     (if x \<in> set xs then first_occurrences xs else first_occurrences xs @ [x])"
  by (simp add: first_occurrences_def)

lemma first_occurrences_Nil [simp]: "first_occurrences [] = []"
  by (simp add: first_occurrences_def)

lemma set_first_occurrences [simp]: "set (first_occurrences xs) = set xs"
  by (simp add: first_occurrences_def)

lemma distinct_first_occurrences [simp]: "distinct (first_occurrences xs)"
  by (simp add: first_occurrences_def)

lemma set_js_entries [simp]: "set (js_entries ob) = set ob"
  by (auto simp: js_entries_def)

lemma first_occurrences_eq_Nil [simp]: "first_occurrences xs = [] \<longleftrightarrow> xs = []"
  by (simp add: first_occurrences_def)

section \<open>Lemmas on decimal strings\<close>

lemma digit_val_digit_char [simp, js_simps]:
  "d < 10 \<Longrightarrow> digit_val (digit_char d) = Some d"
  by (simp add: digit_val_def digit_char_def)

lemma dec_acc_append [js_simps]:
  "dec_acc acc (xs @ ys) = (case dec_acc acc xs of None \<Rightarrow> None | Some a \<Rightarrow> dec_acc a ys)"
  by (induction acc xs rule: dec_acc.induct) (auto split: option.splits)

lemma nat_to_dec_nonempty [simp, js_simps]: "nat_to_dec n \<noteq> []"
  by (subst nat_to_dec.simps) simp

lemma dec_acc_nat_to_dec: "dec_acc 0 (nat_to_dec n) = Some n"
proof (induction n rule: nat_to_dec.induct)
  case (1 n)
  show ?case
  proof (cases "n < 10")
    case True
    then show ?thesis by (subst nat_to_dec.simps) simp
  next
    case False
    with "1.IH" have "dec_acc 0 (nat_to_dec (n div 10)) = Some (n div 10)" by simp
    with False show ?thesis
      by (subst nat_to_dec.simps) (simp add: dec_acc_append)
  qed
qed

lemma dec_to_nat_nat_to_dec [simp, js_simps]: "dec_to_nat (nat_to_dec n) = Some n"
  by (simp add: dec_to_nat_def dec_acc_nat_to_dec)

lemma nat_to_dec_inj [js_simps]: "nat_to_dec m = nat_to_dec n \<longleftrightarrow> m = n"
  by (metis dec_to_nat_nat_to_dec option.inject)

section \<open>Lemmas on trimming and defaults\<close>

lemma js_trim_empty_iff [js_simps]:
  "js_trim s = [] \<longleftrightarrow> (\<forall>c \<in> set s. is_js_space c)"
proof -
  have "js_trim s = [] \<longleftrightarrow> (\<forall>c \<in> set (dropWhile is_js_space s). is_js_space c)"
    by (simp add: js_trim_def)
  also have "\<dots> \<longleftrightarrow> (\<forall>c \<in> set s. is_js_space c)"
    by (induction s) auto
  finally show ?thesis .
qed

lemma js_or_str_nonempty [js_simps]: "d \<noteq> [] \<Longrightarrow> js_or_str s d \<noteq> []"
  by (simp add: js_or_str_def split: option.splits)

end
