(* ===== verification/Catalog.thy ===== *)
theory Catalog
  imports Prelude
begin

text \<open>
  The model catalogue as the client holds it, and the operations on the selection
  of \<^verbatim>\<open>App.js\<close>: the category of a model (\<^verbatim>\<open>model.category || 'General'\<close>), the
  selection updaters of \<^verbatim>\<open>handleModelSelect\<close>, \<^verbatim>\<open>handleSelectAll\<close>,
  \<^verbatim>\<open>handleClearAll\<close> and \<^verbatim>\<open>handleSelectDiverse\<close>, and the grouping by category
  of \<^verbatim>\<open>renderModelSelection\<close>. The selection is a list of model names, in the
  order the user picked them.
\<close>

record model_info =
  name :: model_name
  category :: "string option"
  specialty :: "string option"
  description :: string
  active :: "bool option"

definition model_category :: "model_info \<Rightarrow> string" where
  "model_category model = js_or_str (category model) ''General''"

section \<open>Selection updaters\<close>

definition toggle_selection :: "model_name \<Rightarrow> model_name list \<Rightarrow> model_name list" where
  "toggle_selection modelName prev =
     (if modelName \<in> set prev then filter (\<lambda>m. m \<noteq> modelName) prev else prev @ [modelName])"

definition select_all :: "model_info list \<Rightarrow> model_name list" where
  "select_all models = map name models"

definition clear_all :: "model_name list" where
  "clear_all = []"

text \<open>
  \<^verbatim>\<open>handleSelectDiverse\<close>: one pass of \<^verbatim>\<open>models.forEach\<close> over a JavaScript \<^verbatim>\<open>Set\<close>
  of categories and an array of names.
\<close>

definition diverse_step ::
  "string set \<times> model_name list \<Rightarrow> model_info \<Rightarrow> string set \<times> model_name list" where
  "diverse_step st model =
     (let (selectedCategories, diverseModels) = st; cat = model_category model in
      if card selectedCategories < 3 \<and> cat \<notin> selectedCategories
      then (insert cat selectedCategories, diverseModels @ [name model])
      else st)"

definition select_diverse :: "model_info list \<Rightarrow> model_name list" where
  "select_diverse models = snd (foldl diverse_step ({}, []) models)"

section \<open>Grouping by category\<close>

text \<open>
  The \<^verbatim>\<open>models.reduce\<close> of \<^verbatim>\<open>renderModelSelection\<close>. The accumulator is an object
  created by \<^verbatim>\<open>{}\<close>: a category that is not yet an own key but names a property of
  \<^verbatim>\<open>Object.prototype\<close> reads as a truthy value, no array is created, and the
  \<^verbatim>\<open>push\<close> on it raises \<^verbatim>\<open>TypeError\<close>.
\<close>

definition categorize_step ::
  "js_error + model_info list js_object \<Rightarrow> model_info \<Rightarrow> js_error + model_info list js_object" where
  "categorize_step r model =
     (case r of Inl e \<Rightarrow> Inl e
      | Inr acc \<Rightarrow>
          (let cat = model_category model in
           case obj_get acc cat of
             Some ms \<Rightarrow> Inr (obj_set acc cat (ms @ [model]))
           | None \<Rightarrow>
               if cat \<in> set object_prototype_keys then Inl TypeError
               else Inr (obj_set acc cat [model])))"

definition categorize :: "model_info list \<Rightarrow> js_error + model_info list js_object" where
  "categorize models = foldl categorize_step (Inr []) models"

section \<open>Reference specifications\<close>

text \<open>
  What \<^verbatim>\<open>handleSelectDiverse\<close> promises, stated without the loop: the names of the
  first model of each category, in catalogue order, for the first three categories met.
  What the \<^verbatim>\<open>reduce\<close> of \<^verbatim>\<open>renderModelSelection\<close> promises: one group per category,
  in order of first appearance, holding that category's models in catalogue order.
\<close>

definition first_of_category :: "model_info list \<Rightarrow> nat \<Rightarrow> bool" where
  "first_of_category models i =
     list_all (\<lambda>j. model_category (models ! j) \<noteq> model_category (models ! i)) [0..<i]"

definition category_firsts :: "model_info list \<Rightarrow> model_info list" where
  "category_firsts models =
     map (\<lambda>i. models ! i) (filter (first_of_category models) [0..<length models])"

definition diverse_reference :: "model_info list \<Rightarrow> model_name list" where
  "diverse_reference models = map name (take 3 (category_firsts models))"

definition category_groups :: "model_info list \<Rightarrow> model_info list js_object" where
  "category_groups models =
     map (\<lambda>c. (c, filter (\<lambda>m. model_category m = c) models)) (first_occurrences (map model_category models))"

section \<open>Lemmas on the selection updaters\<close>

lemma toggle_selection_member [simp]:
  "m' \<in> set (toggle_selection m sel) \<longleftrightarrow> (if m' = m then m \<notin> set sel else m' \<in> set sel)"
  by (auto simp: toggle_selection_def)

lemma distinct_toggle_selection [simp]:
  "distinct sel \<Longrightarrow> distinct (toggle_selection m sel)"
  by (simp add: toggle_selection_def)

lemma toggle_selection_twice:
  "m \<in> set sel \<Longrightarrow> toggle_selection m (toggle_selection m sel) = filter (\<lambda>x. x \<noteq> m) sel @ [m]"
  by (simp add: toggle_selection_def)

lemma distinct_select_all [simp]:
  "distinct (map name models) \<Longrightarrow> distinct (select_all models)"
  by (simp add: select_all_def)

section \<open>handleSelectDiverse against its reference\<close>

lemma first_of_category_snoc_prefix:
  "i < length xs \<Longrightarrow> first_of_category (xs @ [x]) i = first_of_category xs i"
  by (simp add: first_of_category_def nth_append list_all_iff)

lemma first_of_category_snoc_last:
  "first_of_category (xs @ [x]) (length xs) \<longleftrightarrow> model_category x \<notin> model_category ` set xs"
proof -
  have "first_of_category (xs @ [x]) (length xs) \<longleftrightarrow>
          (\<forall>j < length xs. model_category (xs ! j) \<noteq> model_category x)"
    by (auto simp: first_of_category_def list_all_iff nth_append)
  also have "\<dots> \<longleftrightarrow> model_category x \<notin> model_category ` set xs"
    by (metis (mono_tags, lifting) image_iff in_set_conv_nth)
  finally show ?thesis .
qed

lemma category_firsts_Nil [simp]: "category_firsts [] = []"
  by (simp add: category_firsts_def)

lemma category_firsts_snoc:
  "category_firsts (xs @ [x]) =
     category_firsts xs @ (if model_category x \<in> model_category ` set xs then [] else [x])"
proof -
  have "filter (first_of_category (xs @ [x])) [0..<length xs] = filter (first_of_category xs) [0..<length xs]"
    by (rule filter_cong) (simp_all add: first_of_category_snoc_prefix)
  moreover have "map (\<lambda>i. (xs @ [x]) ! i) (filter (first_of_category xs) [0..<length xs])
                 = map (\<lambda>i. xs ! i) (filter (first_of_category xs) [0..<length xs])"
    by (simp add: nth_append)
  ultimately show ?thesis
    by (simp add: category_firsts_def first_of_category_snoc_last)
qed

lemma category_firsts_categories:
  "model_category ` set (category_firsts xs) = model_category ` set xs"
  by (induction xs rule: rev_induct) (auto simp: category_firsts_snoc)

lemma category_firsts_distinct:
  "distinct (map model_category (category_firsts xs))"
proof (induction xs rule: rev_induct)
  case Nil
  then show ?case by simp
next
  case (snoc x xs)
  then show ?case
    using category_firsts_categories [of xs] by (auto simp: category_firsts_snoc)
qed

lemma card_categories_take:
  "card (model_category ` set (take n (category_firsts xs))) = length (take n (category_firsts xs))"
proof -
  have "distinct (map model_category (take n (category_firsts xs)))"
    using category_firsts_distinct [of xs] by (simp add: take_map [symmetric] del: take_map)
  then show ?thesis by (metis distinct_card length_map set_map)
qed

lemma select_diverse_fold:
  "foldl diverse_step ({}, []) xs =
     (model_category ` set (take 3 (category_firsts xs)), diverse_reference xs)"
proof (induction xs rule: rev_induct)
  case Nil
  then show ?case by (simp add: category_firsts_def diverse_reference_def)
next
  case (snoc x xs)
  let ?F = "category_firsts xs"
  have card: "card (model_category ` set (take 3 ?F)) = length (take 3 ?F)"
    by (rule card_categories_take)
  show ?case
  proof (cases "length ?F < 3")
    case True
    then have tk: "take 3 ?F = ?F" by simp
    show ?thesis
    proof (cases "model_category x \<in> model_category ` set xs")
      case True
      with tk card snoc.IH show ?thesis
        by (simp add: diverse_step_def diverse_reference_def category_firsts_snoc
                      category_firsts_categories)
    next
      case False
      with tk card snoc.IH \<open>length ?F < 3\<close> show ?thesis
        by (simp add: diverse_step_def diverse_reference_def category_firsts_snoc
                      category_firsts_categories)
    qed
  next
    case False
    then have "take 3 (?F @ ys) = take 3 ?F" for ys by simp
    with False card snoc.IH show ?thesis
      by (simp add: diverse_step_def diverse_reference_def category_firsts_snoc)
  qed
qed

lemma category_firsts_subset: "set (category_firsts xs) \<subseteq> set xs"
  by (induction xs rule: rev_induct) (auto simp: category_firsts_snoc)

lemma distinct_names_category_firsts:
  "distinct (map name xs) \<Longrightarrow> distinct (map name (category_firsts xs))"
proof (induction xs rule: rev_induct)
  case Nil
  then show ?case by simp
next
  case (snoc x xs)
  then have "name x \<notin> name ` set (category_firsts xs)"
    using category_firsts_subset [of xs] by auto
  with snoc show ?case by (auto simp: category_firsts_snoc)
qed

lemma distinct_foldl_diverse_step:
  "distinct (map name xs) \<Longrightarrow> distinct acc \<Longrightarrow> set acc \<inter> name ` set xs = {} \<Longrightarrow>
   distinct (snd (foldl diverse_step (C, acc) xs))"
proof (induction xs arbitrary: C acc)
  case Nil
  then show ?case by simp
next
  case (Cons x xs)
  obtain C' acc' where st: "diverse_step (C, acc) x = (C', acc')" by fastforce
  have "acc' = acc \<or> acc' = acc @ [name x]"
    using st by (auto simp: diverse_step_def Let_def split: if_splits)
  moreover have "name x \<notin> set acc" and "name x \<notin> name ` set xs"
    using Cons.prems by auto
  ultimately have "distinct acc' \<and> set acc' \<inter> name ` set xs = {}"
    using Cons.prems by (elim disjE) simp_all
  with Cons.prems Cons.IH [of acc' C'] st show ?case by simp
qed

lemma distinct_select_diverse:
  "distinct (map name xs) \<Longrightarrow> distinct (select_diverse xs)"
  by (simp add: select_diverse_def distinct_foldl_diverse_step)

text \<open>
  C5. \<^verbatim>\<open>handleSelectDiverse\<close> selects exactly the names of the first model of each
  category in catalogue order, for the first three categories that occur (a model
  without a category, or with an empty one, counts as \<^verbatim>\<open>General\<close>).
\<close>

theorem select_diverse_eq_reference: "select_diverse models = diverse_reference models"
  by (simp add: select_diverse_def select_diverse_fold)

lemma categorize_snoc: "categorize (xs @ [x]) = categorize_step (categorize xs) x"
  by (simp add: categorize_def)

lemma map_of_category_groups:
  "map_of (category_groups xs) c =
     (if c \<in> model_category ` set xs then Some (filter (\<lambda>m. model_category m = c) xs) else None)"
  by (simp add: category_groups_def map_of_map_keys_iff)

text \<open>
  C6. The grouping of \<^verbatim>\<open>renderModelSelection\<close> yields one group per category, in order
  of first appearance, each holding its models in catalogue order; if some model's
  category names a property of \<^verbatim>\<open>Object.prototype\<close> (such as \<^verbatim>\<open>toString\<close>), the
  \<^verbatim>\<open>push\<close> throws \<^verbatim>\<open>TypeError\<close> instead and the render fails.
\<close>

theorem categorize_result:
  "categorize models =
     (if \<exists>m \<in> set models. model_category m \<in> set object_prototype_keys then Inl TypeError
      else Inr (category_groups models))"
proof (induction models rule: rev_induct)
  case Nil
  then show ?case by (simp add: categorize_def category_groups_def)
next
  case (snoc x xs)
  show ?case
  proof (cases "\<exists>m \<in> set xs. model_category m \<in> set object_prototype_keys")
    case True
    with snoc.IH show ?thesis by (simp add: categorize_snoc categorize_step_def)
  next
    case False
    with snoc.IH have g: "categorize xs = Inr (category_groups xs)" by simp
    let ?c = "model_category x"
    show ?thesis
    proof (cases "?c \<in> model_category ` set xs")
      case True
      then have "obj_get (category_groups xs) ?c = Some (filter (\<lambda>m. model_category m = ?c) xs)"
        by (simp add: obj_get_def map_of_category_groups)
      with g have "categorize (xs @ [x]) =
          Inr (obj_set (category_groups xs) ?c (filter (\<lambda>m. model_category m = ?c) xs @ [x]))"
        by (simp add: categorize_snoc categorize_step_def Let_def)
      moreover from True have "?c \<in> set (map model_category xs)" by simp
      ultimately show ?thesis using False True
        by (auto simp: category_groups_def obj_set_map_keys intro!: map_cong)
    next
      case new: False
      then have none: "obj_get (category_groups xs) ?c = None"
        by (simp add: obj_get_def map_of_category_groups)
      show ?thesis
      proof (cases "?c \<in> set object_prototype_keys")
        case True
        with g none show ?thesis by (simp add: categorize_snoc categorize_step_def Let_def)
      next
        case ok: False
        with g none have "categorize (xs @ [x]) = Inr (obj_set (category_groups xs) ?c [x])"
          by (simp add: categorize_snoc categorize_step_def Let_def)
        moreover have "filter (\<lambda>m. model_category m = ?c) xs = []"
          using new by (metis (mono_tags, lifting) filter_False image_eqI)
        moreover from new have "?c \<notin> set (map model_category xs)" by auto
        ultimately show ?thesis using False ok
          by (auto simp: category_groups_def obj_set_map_keys intro!: map_cong)
      qed
    qed
  qed
qed

theorem select_diverse_eq_reference_witness:
  "select_diverse [\<lparr>name = ''a'', category = Some ''Coding'', specialty = None, description = [], active = None\<rparr>, \<lparr>name = ''b'', category = None, specialty = None, description = [], active = None\<rparr>, \<lparr>name = ''c'', category = Some ''Coding'', specialty = None, description = [], active = None\<rparr>, \<lparr>name = ''d'', category = Some '''', specialty = None, description = [], active = None\<rparr>] = [''a'', ''b'']"
proof -
  have "select_diverse [\<lparr>name = ''a'', category = Some ''Coding'', specialty = None, description = [], active = None\<rparr>, \<lparr>name = ''b'', category = None, specialty = None, description = [], active = None\<rparr>, \<lparr>name = ''c'', category = Some ''Coding'', specialty = None, description = [], active = None\<rparr>, \<lparr>name = ''d'', category = Some '''', specialty = None, description = [], active = None\<rparr>] = diverse_reference [\<lparr>name = ''a'', category = Some ''Coding'', specialty = None, description = [], active = None\<rparr>, \<lparr>name = ''b'', category = None, specialty = None, description = [], active = None\<rparr>, \<lparr>name = ''c'', category = Some ''Coding'', specialty = None, description = [], active = None\<rparr>, \<lparr>name = ''d'', category = Some '''', specialty = None, description = [], active = None\<rparr>]"
    by (rule select_diverse_eq_reference)
  also have "\<dots> = [''a'', ''b'']"
    by (simp add: diverse_reference_def category_firsts_def first_of_category_def
                  model_category_def js_or_str_def upt_rec)
  finally show ?thesis .
qed

theorem categorize_result_witness:
  "categorize [\<lparr>name = ''a'', category = Some ''Coding'', specialty = None, description = [], active = None\<rparr>, \<lparr>name = ''b'', category = Some ''toString'', specialty = None, description = [], active = None\<rparr>] = Inl TypeError"
  by (subst categorize_result) (simp add: model_category_def js_or_str_def object_prototype_keys_def)

end
