(* ===== verification/Wire.thy ===== *)
theory Wire
  imports Catalog
begin

text \<open>
  The messages between the client of \<^verbatim>\<open>App.js\<close> and its backend (spec section 6),
  as the client reads and writes them. JSON values are \<open>jval\<close> (numbers are the
  doubles of JavaScript, here \<open>real\<close>; NaN and infinities are not modelled); an
  absent property is \<open>None\<close>. A \<^verbatim>\<open>response_update\<close> payload is the record
  \<open>response_update\<close>; the backend's HTTP replies are \<open>api_reply\<close>, and a
  \<^verbatim>\<open>fetch\<close> that throws (network failure, or a body that is not JSON) is
  \<open>Fetch_failed\<close>.
\<close>

datatype jval =
    JNull
  | JBool bool
  | JNum real
  | JStr string
  | JArr "jval list"
  | JObj "(string \<times> jval) list"

record response_update =
  ru_model :: model_name
  ru_status :: string
  ru_content :: "string option"
  ru_time :: "real option"
  ru_error :: "string option"

datatype server_event =
    Response_update response_update
  | Debate_update "jval js_object"
  | Query_complete
  | Debate_complete
  | Error_event "string option"

datatype request =
    Get_models
  | Post_query string string "model_name list" string
  | Post_debate string "model_name list" int string
  | Emit_cancel_query string
  | Emit_cancel_debate string

record api_reply =
  success :: bool
  reply_error :: "string option"
  models_with_info :: "model_info list option"

datatype 'a fetch_result = Fetch_ok 'a | Fetch_failed

end
