(* ===== verification/Client.thy ===== *)
theory Client
  imports Wire
begin

text \<open>
  The state of the \<^verbatim>\<open>App\<close> component of \<^verbatim>\<open>App.js\<close> (its \<^verbatim>\<open>useState\<close> hooks and
  whether \<^verbatim>\<open>socketRef.current\<close> is set) and every code path that changes it: the
  socket listeners registered by the \<^verbatim>\<open>useEffect\<close>, the event handlers, and the
  continuations of their \<^verbatim>\<open>fetch\<close> calls. An \<^verbatim>\<open>async\<close> handler is split at its
  \<^verbatim>\<open>await\<close>: the part before it returns the new state and the requests it sends; the
  part after it is a separate function of the reply. \<^verbatim>\<open>client_step\<close> dispatches one
  input (a socket event, a user action or a reply) to its handler.
\<close>

datatype mode = Mode_qa | Mode_debate | Mode_dashboard

record app_state =
  models :: "model_info list"
  selectedModels :: "model_name list"
  currentMode :: mode
  question :: string
  questionType :: string
  debateTopic :: string
  debateRounds :: int
  responses :: "response_update js_object"
  debateState :: "jval js_object"
  isQuerying :: bool
  isDebating :: bool
  loading :: bool
  error :: "string option"
  sessionId :: string
  socket :: bool

definition initial_state :: "string \<Rightarrow> app_state" where
  "initial_state sid =
     \<lparr>models = [], selectedModels = [], currentMode = Mode_qa, question = [],
      questionType = ''general'', debateTopic = [], debateRounds = 3, responses = [],
      debateState = [], isQuerying = False, isDebating = False, loading = False,
      error = Some [], sessionId = sid, socket = False\<rparr>"

section \<open>Socket listeners\<close>

definition on_response_update :: "response_update \<Rightarrow> app_state \<Rightarrow> app_state" where
  "on_response_update data s = s\<lparr>responses := obj_set (responses s) (ru_model data) data\<rparr>"

definition on_debate_update :: "jval js_object \<Rightarrow> app_state \<Rightarrow> app_state" where
  "on_debate_update data s = s\<lparr>debateState := obj_spread (debateState s) data\<rparr>"

definition on_query_complete :: "app_state \<Rightarrow> app_state" where
  "on_query_complete s = s\<lparr>isQuerying := False\<rparr>"

definition on_debate_complete :: "app_state \<Rightarrow> app_state" where
  "on_debate_complete s = s\<lparr>isDebating := False\<rparr>"

definition on_error :: "string option \<Rightarrow> app_state \<Rightarrow> app_state" where
  "on_error message s = s\<lparr>error := message, isQuerying := False, isDebating := False\<rparr>"

fun on_event :: "server_event \<Rightarrow> app_state \<Rightarrow> app_state" where
  "on_event (Response_update data) s = on_response_update data s"
| "on_event (Debate_update data) s = on_debate_update data s"
| "on_event Query_complete s = on_query_complete s"
| "on_event Debate_complete s = on_debate_complete s"
| "on_event (Error_event message) s = on_error message s"

section \<open>Mounting and loading the catalogue\<close>

definition loadModels :: "app_state \<Rightarrow> app_state \<times> request list" where
  "loadModels s = (s\<lparr>loading := True\<rparr>, [Get_models])"

definition loadModels_done :: "api_reply fetch_result \<Rightarrow> app_state \<Rightarrow> app_state" where
  "loadModels_done r s =
     (case r of
        Fetch_ok data \<Rightarrow>
          (if success data
           then s\<lparr>models := (case models_with_info data of None \<Rightarrow> [] | Some ms \<Rightarrow> ms),
                  loading := False\<rparr>
           else s\<lparr>loading := False\<rparr>)
      | Fetch_failed \<Rightarrow> s\<lparr>error := Some ''Failed to load models'', loading := False\<rparr>)"

definition mount :: "app_state \<Rightarrow> app_state \<times> request list" where
  "mount s = loadModels (s\<lparr>socket := True\<rparr>)"

section \<open>Selection handlers\<close>

definition handleModelSelect :: "model_name \<Rightarrow> app_state \<Rightarrow> app_state" where
  "handleModelSelect modelName s =
     s\<lparr>selectedModels := toggle_selection modelName (selectedModels s)\<rparr>"

definition handleSelectAll :: "app_state \<Rightarrow> app_state" where
  "handleSelectAll s = s\<lparr>selectedModels := select_all (models s)\<rparr>"

definition handleClearAll :: "app_state \<Rightarrow> app_state" where
  "handleClearAll s = s\<lparr>selectedModels := clear_all\<rparr>"

definition handleSelectDiverse :: "app_state \<Rightarrow> app_state" where
  "handleSelectDiverse s = s\<lparr>selectedModels := select_diverse (models s)\<rparr>"

section \<open>Query and debate requests\<close>

definition handleSubmitQuery :: "app_state \<Rightarrow> app_state \<times> request list" where
  "handleSubmitQuery s =
     (if js_trim (question s) = [] \<or> selectedModels s = [] then (s, [])
      else (s\<lparr>isQuerying := True, responses := [], error := Some []\<rparr>,
            [Post_query (question s) (questionType s) (selectedModels s) (sessionId s)]))"

definition handleSubmitQuery_done :: "api_reply fetch_result \<Rightarrow> app_state \<Rightarrow> app_state" where
  "handleSubmitQuery_done r s =
     (case r of
        Fetch_ok data \<Rightarrow>
          (if \<not> success data
           then s\<lparr>error := Some (js_or_str (reply_error data) ''Query failed''), isQuerying := False\<rparr>
           else s)
      | Fetch_failed \<Rightarrow> s\<lparr>error := Some ''Failed to submit query'', isQuerying := False\<rparr>)"

definition max_debaters :: nat where
  "max_debaters = 6"

definition handleStartDebate :: "app_state \<Rightarrow> app_state \<times> request list" where
  "handleStartDebate s =
     (if js_trim (debateTopic s) = [] \<or> selectedModels s = [] then (s, [])
      else if length (selectedModels s) > max_debaters
      then (s\<lparr>error := Some ''Please select no more than 6 models for optimal debate quality''\<rparr>, [])
      else (s\<lparr>isDebating := True, debateState := [], error := Some []\<rparr>,
            [Post_debate (debateTopic s) (selectedModels s) (debateRounds s) (sessionId s)]))"

definition handleStartDebate_done :: "api_reply fetch_result \<Rightarrow> app_state \<Rightarrow> app_state" where
  "handleStartDebate_done r s =
     (case r of
        Fetch_ok data \<Rightarrow>
          (if \<not> success data
           then s\<lparr>error := Some (js_or_str (reply_error data) ''Debate failed to start''),
                  isDebating := False\<rparr>
           else s)
      | Fetch_failed \<Rightarrow> s\<lparr>error := Some ''Failed to start debate'', isDebating := False\<rparr>)"

definition handleCancelQuery :: "app_state \<Rightarrow> app_state \<times> request list" where
  "handleCancelQuery s =
     (s\<lparr>isQuerying := False, responses := []\<rparr>,
      if socket s then [Emit_cancel_query (sessionId s)] else [])"

definition handleCancelDebate :: "app_state \<Rightarrow> app_state \<times> request list" where
  "handleCancelDebate s =
     (s\<lparr>isDebating := False, debateState := []\<rparr>,
      if socket s then [Emit_cancel_debate (sessionId s)] else [])"

section \<open>Dispatch of one input\<close>

text \<open>
  The user actions are the \<^verbatim>\<open>onClick\<close> and \<^verbatim>\<open>onChange\<close> props of the rendered
  elements; which of them are on screen (and enabled) is decided in theory \<open>View\<close>.
\<close>

datatype user_action =
    Select_model model_name
  | Select_all
  | Clear_all
  | Select_diverse
  | Refresh
  | Submit_query
  | Start_debate
  | Cancel_query
  | Cancel_debate
  | Set_question string
  | Set_question_type string
  | Set_topic string
  | Set_rounds int
  | Set_mode mode
  | Close_error

datatype client_input =
    Mounted
  | Socket server_event
  | User user_action
  | Models_reply "api_reply fetch_result"
  | Query_reply "api_reply fetch_result"
  | Debate_reply "api_reply fetch_result"

fun user_step :: "user_action \<Rightarrow> app_state \<Rightarrow> app_state \<times> request list" where
  "user_step (Select_model n) s = (handleModelSelect n s, [])"
| "user_step Select_all s = (handleSelectAll s, [])"
| "user_step Clear_all s = (handleClearAll s, [])"
| "user_step Select_diverse s = (handleSelectDiverse s, [])"
| "user_step Refresh s = loadModels s"
| "user_step Submit_query s = handleSubmitQuery s"
| "user_step Start_debate s = handleStartDebate s"
| "user_step Cancel_query s = handleCancelQuery s"
| "user_step Cancel_debate s = handleCancelDebate s"
| "user_step (Set_question v) s = (s\<lparr>question := v\<rparr>, [])"
| "user_step (Set_question_type v) s = (s\<lparr>questionType := v\<rparr>, [])"
| "user_step (Set_topic v) s = (s\<lparr>debateTopic := v\<rparr>, [])"
| "user_step (Set_rounds v) s = (s\<lparr>debateRounds := v\<rparr>, [])"
| "user_step (Set_mode m) s = (s\<lparr>currentMode := m\<rparr>, [])"
| "user_step Close_error s = (s\<lparr>error := Some []\<rparr>, [])"

fun client_step :: "client_input \<Rightarrow> app_state \<Rightarrow> app_state \<times> request list" where
  "client_step Mounted s = mount s"
| "client_step (Socket e) s = (on_event e s, [])"
| "client_step (User a) s = user_step a s"
| "client_step (Models_reply r) s = (loadModels_done r s, [])"
| "client_step (Query_reply r) s = (handleSubmitQuery_done r s, [])"
| "client_step (Debate_reply r) s = (handleStartDebate_done r s, [])"

text \<open>The payloads of the \<^verbatim>\<open>response_update\<close> events of a delivery sequence.\<close>

fun response_payloads :: "server_event list \<Rightarrow> response_update list" where
  "response_payloads [] = []"
| "response_payloads (Response_update d # es) = d # response_payloads es"
| "response_payloads (e # es) = response_payloads es"

section \<open>Lemmas on the socket listeners\<close>

named_theorems client_simps "unfolding of the client handlers"

declare on_response_update_def [client_simps] on_debate_update_def [client_simps]
  on_query_complete_def [client_simps] on_debate_complete_def [client_simps]
  on_error_def [client_simps] loadModels_def [client_simps] loadModels_done_def [client_simps]
  mount_def [client_simps] handleModelSelect_def [client_simps]
  handleSelectAll_def [client_simps] handleClearAll_def [client_simps]
  handleSelectDiverse_def [client_simps] handleSubmitQuery_def [client_simps]
  handleSubmitQuery_done_def [client_simps] handleStartDebate_def [client_simps]
  handleStartDebate_done_def [client_simps] handleCancelQuery_def [client_simps]
  handleCancelDebate_def [client_simps]

lemma map_of_keyed_rev:
  "map_of (rev (map (\<lambda>d. (key d, d)) xs)) k =
     (case filter (\<lambda>d. key d = k) (rev xs) of [] \<Rightarrow> None | d # _ \<Rightarrow> Some d)"
  by (induction xs rule: rev_induct) auto

lemma responses_fold_on_event:
  "obj_get (responses (fold on_event es s)) =
     obj_get (responses s) ++ map_of (rev (map (\<lambda>d. (ru_model d, d)) (response_payloads es)))"
proof (induction es arbitrary: s rule: response_payloads.induct)
  case 1
  then show ?case by simp
next
  case (2 d es)
  then show ?case
    by (simp add: client_simps fun_eq_iff map_add_def split: option.splits)
qed (simp_all add: client_simps)

lemma client_step_requests:
  "snd (client_step i s) =
     (case i of
        Mounted \<Rightarrow> [Get_models]
      | User Refresh \<Rightarrow> [Get_models]
      | User Submit_query \<Rightarrow> snd (handleSubmitQuery s)
      | User Start_debate \<Rightarrow> snd (handleStartDebate s)
      | User Cancel_query \<Rightarrow> snd (handleCancelQuery s)
      | User Cancel_debate \<Rightarrow> snd (handleCancelDebate s)
      | _ \<Rightarrow> [])"
proof (cases i)
  case (User a)
  then show ?thesis by (cases a) (simp_all add: client_simps)
qed (simp_all add: client_simps)

section \<open>The response view is a merge of self-describing events\<close>

text \<open>
  C1. After any sequence of socket events, the response the Q\&A view holds for a
  model is the payload of the last \<^verbatim>\<open>response_update\<close> event for that model, or what
  it held before if there was none: the observer reconstructs the state by merging.
\<close>

theorem response_view_last_update:
  "obj_get (responses (fold on_event es s)) m =
     (case filter (\<lambda>d. ru_model d = m) (rev (response_payloads es)) of
        [] \<Rightarrow> obj_get (responses s) m
      | d # _ \<Rightarrow> Some d)"
  by (simp add: responses_fold_on_event map_add_def map_of_keyed_rev split: list.split)

theorem response_view_last_update_witness:
  "obj_get (responses (fold on_event [Response_update \<lparr>ru_model = ''a'', ru_status = ''processing'', ru_content = None, ru_time = None, ru_error = None\<rparr>, Query_complete, Response_update \<lparr>ru_model = ''a'', ru_status = ''completed'', ru_content = Some ''x'', ru_time = Some 2, ru_error = None\<rparr>]
      (initial_state ''s''))) ''a'' = Some \<lparr>ru_model = ''a'', ru_status = ''completed'', ru_content = Some ''x'', ru_time = Some 2, ru_error = None\<rparr>"
  by (subst response_view_last_update) simp

text \<open>
  C2. The response view does not depend on how the updates of different models
  interleave: two delivery sequences whose \<^verbatim>\<open>response_update\<close> events agree model by
  model (ordered per record, unordered across records) give the same view.
\<close>

theorem response_view_order_independent:
  assumes "\<forall>m. filter (\<lambda>d. ru_model d = m) (response_payloads es1)
             = filter (\<lambda>d. ru_model d = m) (response_payloads es2)"
  shows "obj_get (responses (fold on_event es1 s)) = obj_get (responses (fold on_event es2 s))"
proof
  fix m
  have "filter (\<lambda>d. ru_model d = m) (rev (response_payloads es1))
        = filter (\<lambda>d. ru_model d = m) (rev (response_payloads es2))"
    using assms by (simp add: rev_filter [symmetric])
  then show "obj_get (responses (fold on_event es1 s)) m = obj_get (responses (fold on_event es2 s)) m"
    by (simp add: responses_fold_on_event map_add_def map_of_keyed_rev)
qed

theorem response_view_order_independent_witness:
  "obj_get (responses (fold on_event [Response_update \<lparr>ru_model = ''a'', ru_status = ''processing'', ru_content = None, ru_time = None, ru_error = None\<rparr>, Response_update \<lparr>ru_model = ''b'', ru_status = ''error'', ru_content = None, ru_time = None, ru_error = None\<rparr>, Response_update \<lparr>ru_model = ''a'', ru_status = ''completed'', ru_content = Some ''x'', ru_time = Some 2, ru_error = None\<rparr>]
      (initial_state ''s'')))
   = obj_get (responses (fold on_event [Response_update \<lparr>ru_model = ''b'', ru_status = ''error'', ru_content = None, ru_time = None, ru_error = None\<rparr>, Response_update \<lparr>ru_model = ''a'', ru_status = ''processing'', ru_content = None, ru_time = None, ru_error = None\<rparr>, Response_update \<lparr>ru_model = ''a'', ru_status = ''completed'', ru_content = Some ''x'', ru_time = Some 2, ru_error = None\<rparr>]
      (initial_state ''s'')))"
  by (rule response_view_order_independent) auto

section \<open>Requests the client sends\<close>

text \<open>
  C3. Every query request the client sends carries the current question, which has a
  character other than white space, the current non-empty selection and the session
  id: an empty selection or a blank question never reaches the backend.
\<close>

theorem query_request_well_formed:
  assumes "client_step i s = (s', reqs)" and "Post_query q t sel sid \<in> set reqs"
  shows "q = question s \<and> sel = selectedModels s \<and> sel \<noteq> [] \<and>
         (\<exists>c \<in> set q. \<not> is_js_space c) \<and> sid = sessionId s"
proof -
  from assms have "Post_query q t sel sid \<in> set (snd (client_step i s))" by simp
  then have "Post_query q t sel sid \<in> set (snd (handleSubmitQuery s))"
    by (auto simp: client_step_requests handleStartDebate_def handleCancelQuery_def
             handleCancelDebate_def split: client_input.splits user_action.splits if_splits)
  then show ?thesis
    by (auto simp: handleSubmitQuery_def js_trim_empty_iff split: if_splits)
qed

theorem query_request_well_formed_witness:
  "snd (client_step (User Submit_query) ((initial_state ''s'')\<lparr>question := '' hi'', selectedModels := [''a'']\<rparr>)) = [Post_query '' hi'' ''general'' [''a''] ''s'']
   \<and> (\<exists>c \<in> set '' hi''. \<not> is_js_space c)"
  using query_request_well_formed [of "User Submit_query" "((initial_state ''s'')\<lparr>question := '' hi'', selectedModels := [''a'']\<rparr>)"
      "fst (client_step (User Submit_query) ((initial_state ''s'')\<lparr>question := '' hi'', selectedModels := [''a'']\<rparr>))" "snd (client_step (User Submit_query) ((initial_state ''s'')\<lparr>question := '' hi'', selectedModels := [''a'']\<rparr>))"
      "'' hi''" "''general''" "[''a'']" "''s''"]
  by (simp add: client_simps initial_state_def js_trim_def is_js_space_def)

text \<open>
  C4. Every debate request the client sends has a topic with a character other than
  white space, between one and six participants (the current selection), the chosen
  round count and the session id.
\<close>

theorem debate_request_well_formed:
  assumes "client_step i s = (s', reqs)" and "Post_debate tp sel r sid \<in> set reqs"
  shows "tp = debateTopic s \<and> sel = selectedModels s \<and> 1 \<le> length sel \<and> length sel \<le> 6 \<and>
         (\<exists>c \<in> set tp. \<not> is_js_space c) \<and> r = debateRounds s \<and> sid = sessionId s"
proof -
  from assms have "Post_debate tp sel r sid \<in> set (snd (client_step i s))" by simp
  then have "Post_debate tp sel r sid \<in> set (snd (handleStartDebate s))"
    by (auto simp: client_step_requests handleSubmitQuery_def handleCancelQuery_def
             handleCancelDebate_def split: client_input.splits user_action.splits if_splits)
  then show ?thesis
    by (auto simp: handleStartDebate_def js_trim_empty_iff max_debaters_def Suc_le_eq
             split: if_splits)
qed

theorem debate_request_well_formed_witness:
  "snd (client_step (User Start_debate) ((initial_state ''s'')\<lparr>debateTopic := ''AI'', selectedModels := [''a'', ''b'']\<rparr>)) = [Post_debate ''AI'' [''a'', ''b''] 3 ''s'']
   \<and> length [''a'', ''b''] \<le> 6"
  using debate_request_well_formed [of "User Start_debate" "((initial_state ''s'')\<lparr>debateTopic := ''AI'', selectedModels := [''a'', ''b'']\<rparr>)"
      "fst (client_step (User Start_debate) ((initial_state ''s'')\<lparr>debateTopic := ''AI'', selectedModels := [''a'', ''b'']\<rparr>))" "snd (client_step (User Start_debate) ((initial_state ''s'')\<lparr>debateTopic := ''AI'', selectedModels := [''a'', ''b'']\<rparr>))"
      "''AI''" "[''a'', ''b'']" 3 "''s''"]
  by (simp add: client_simps initial_state_def js_trim_def is_js_space_def max_debaters_def)

section \<open>Cancellation and failures\<close>

text \<open>
  C7. Cancelling a query clears the responses and the running flag, but a
  \<^verbatim>\<open>response_update\<close> delivered afterwards is merged and shown again: the client does
  not itself discard late results of a cancelled run.
\<close>

theorem stale_response_after_cancel:
  assumes "client_step (User Cancel_query) s = (s1, reqs)"
    and "client_step (Socket (Response_update d)) s1 = (s2, reqs2)"
  shows "\<not> isQuerying s2 \<and> responses s2 = [(ru_model d, d)] \<and> reqs2 = []"
  using assms by (auto simp: client_simps)

theorem stale_response_after_cancel_witness:
  "responses (fst (client_step (Socket (Response_update \<lparr>ru_model = ''a'', ru_status = ''completed'', ru_content = Some ''x'', ru_time = Some 2, ru_error = None\<rparr>))
      (fst (client_step (User Cancel_query) ((initial_state ''s'')\<lparr>isQuerying := True\<rparr>)))))
   = [(''a'', \<lparr>ru_model = ''a'', ru_status = ''completed'', ru_content = Some ''x'', ru_time = Some 2, ru_error = None\<rparr>)]"
  using stale_response_after_cancel [of "(initial_state ''s'')\<lparr>isQuerying := True\<rparr>"
      "fst (client_step (User Cancel_query) ((initial_state ''s'')\<lparr>isQuerying := True\<rparr>))"
      "snd (client_step (User Cancel_query) ((initial_state ''s'')\<lparr>isQuerying := True\<rparr>))"
      "\<lparr>ru_model = ''a'', ru_status = ''completed'', ru_content = Some ''x'', ru_time = Some 2, ru_error = None\<rparr>"]
  by simp

text \<open>
  C8. A query or debate request whose \<^verbatim>\<open>fetch\<close> fails, or whose reply reports no
  success, ends the pending state and shows a non-empty error message.
\<close>

theorem failed_reply_reported:
  assumes "r = Fetch_failed \<or> (r = Fetch_ok data \<and> \<not> success data)"
  shows "\<not> isQuerying (handleSubmitQuery_done r s) \<and> error (handleSubmitQuery_done r s) \<noteq> Some []
       \<and> error (handleSubmitQuery_done r s) \<noteq> None
       \<and> \<not> isDebating (handleStartDebate_done r s) \<and> error (handleStartDebate_done r s) \<noteq> Some []
       \<and> error (handleStartDebate_done r s) \<noteq> None"
  using assms by (cases r) (auto simp: client_simps js_or_str_def split: option.splits)

theorem failed_reply_reported_witness:
  "handleSubmitQuery_done (Fetch_ok \<lparr>success = False, reply_error = Some [], models_with_info = None\<rparr>)
      ((initial_state ''s'')\<lparr>isQuerying := True\<rparr>)
   = (initial_state ''s'')\<lparr>error := Some ''Query failed''\<rparr>"
  using failed_reply_reported [of "Fetch_ok \<lparr>success = False, reply_error = Some [], models_with_info = None\<rparr>"
      "\<lparr>success = False, reply_error = Some [], models_with_info = None\<rparr>"
      "(initial_state ''s'')\<lparr>isQuerying := True\<rparr>"]
  by (simp add: client_simps initial_state_def js_or_str_def)

end
