(* ===== verification/View.thy ===== *)
theory View
  imports Client
begin

text \<open>
  What the \<^verbatim>\<open>App\<close> component renders from its state (\<^verbatim>\<open>renderModelSelection\<close>,
  \<^verbatim>\<open>renderQAInterface\<close>, \<^verbatim>\<open>renderDebateInterface\<close>, \<^verbatim>\<open>renderDashboard\<close> and the
  top-level JSX), reduced to the values it shows and the controls it offers. A render
  that throws (a \<^verbatim>\<open>TypeError\<close> from \<^verbatim>\<open>.map\<close>, \<^verbatim>\<open>.push\<close> or \<^verbatim>\<open>toFixed\<close> on a value
  without that method, or a property read on \<^verbatim>\<open>null\<close>) is \<open>Inl TypeError\<close>: without an
  error boundary React then unmounts the whole tree. The JavaScript coercions used by
  the JSX (truthiness, \<^verbatim>\<open>||\<close>, \<^verbatim>\<open>ToNumber\<close>, \<^verbatim>\<open>ToLength\<close>, \<^verbatim>\<open>Object.entries\<close>) are
  defined first, on \<open>jval\<close>.
\<close>

section \<open>JavaScript coercions on JSON values\<close>

fun js_truthy :: "jval \<Rightarrow> bool" where
  "js_truthy JNull = False"
| "js_truthy (JBool b) = b"
| "js_truthy (JNum r) = (r \<noteq> 0)"
| "js_truthy (JStr s) = (s \<noteq> [])"
| "js_truthy (JArr xs) = True"
| "js_truthy (JObj kvs) = True"

definition js_or :: "jval option \<Rightarrow> jval \<Rightarrow> jval" where
  "js_or v d = (case v of None \<Rightarrow> d | Some x \<Rightarrow> if js_truthy x then x else d)"

text \<open>
  \<^verbatim>\<open>ToNumber\<close>, with \<open>None\<close> for NaN. A string is read as a decimal natural after
  trimming (the forms the backend can send); other numeric literals and arrays are
  read as NaN.
\<close>

fun js_to_number :: "jval \<Rightarrow> real option" where
  "js_to_number JNull = Some 0"
| "js_to_number (JBool b) = Some (if b then 1 else 0)"
| "js_to_number (JNum r) = Some r"
| "js_to_number (JStr s) =
     (if js_trim s = [] then Some 0 else map_option real (dec_to_nat (js_trim s)))"
| "js_to_number (JArr xs) = None"
| "js_to_number (JObj kvs) = None"

text \<open>\<^verbatim>\<open>ToLength\<close> of \<^verbatim>\<open>Array.from({length: x})\<close>: NaN and negatives give 0.\<close>

definition js_to_length :: "real option \<Rightarrow> nat" where
  "js_to_length x =
     (case x of None \<Rightarrow> 0 | Some r \<Rightarrow> min (nat \<lfloor>r\<rfloor>) (2 ^ 53 - 1))"

fun jval_entries :: "jval \<Rightarrow> (string \<times> jval) list" where
  "jval_entries (JObj kvs) = js_entries kvs"
| "jval_entries (JArr xs) = zip (map nat_to_dec [0..<length xs]) xs"
| "jval_entries (JStr s) = zip (map nat_to_dec [0..<length s]) (map (\<lambda>c. JStr [c]) s)"
| "jval_entries _ = []"

text \<open>A property read \<^verbatim>\<open>v.p\<close>: \<open>None\<close> is \<^verbatim>\<open>undefined\<close>; reading from \<^verbatim>\<open>null\<close> throws.\<close>

fun jval_prop :: "jval \<Rightarrow> string \<Rightarrow> js_error + jval option" where
  "jval_prop JNull p = Inl TypeError"
| "jval_prop (JObj kvs) p = Inr (obj_get kvs p)"
| "jval_prop _ p = Inr None"

section \<open>Model selection panel\<close>

datatype selection_panel = Selection_panel
  "(string \<times> model_info list) list"
  nat
  string

definition renderModelSelection :: "app_state \<Rightarrow> js_error + selection_panel" where
  "renderModelSelection s =
     (case categorize (models s) of
        Inl e \<Rightarrow> Inl e
      | Inr groups \<Rightarrow>
          Inr (Selection_panel (js_entries groups) (length (selectedModels s))
                 (if length (selectedModels s) \<noteq> 1 then ''s'' else [])))"

section \<open>Q\&A responses\<close>

datatype response_body =
    Body_completed real "string option"
  | Body_error string
  | Body_processing
  | Body_none

definition response_body :: "response_update \<Rightarrow> response_body" where
  "response_body response =
     (if ru_status response = ''completed''
      then Body_completed (case ru_time response of None \<Rightarrow> 0 | Some t \<Rightarrow> t) (ru_content response)
      else if ru_status response = ''error''
      then Body_error (js_or_str (ru_error response) ''Unknown error'')
      else if ru_status response = ''processing'' then Body_processing
      else Body_none)"

definition responses_view :: "app_state \<Rightarrow> (model_name \<times> response_body) list option" where
  "responses_view s =
     (if obj_keys (responses s) = [] then None
      else Some (map (\<lambda>(modelName, response). (modelName, response_body response))
                     (js_entries (responses s))))"

section \<open>Debate display\<close>

definition round_key :: "nat \<Rightarrow> string" where
  "round_key roundNum = ''round_'' @ nat_to_dec roundNum"

definition current_round_shown :: "app_state \<Rightarrow> jval" where
  "current_round_shown s = js_or (obj_get (debateState s) ''current_round'') (JNum 1)"

definition total_rounds_shown :: "app_state \<Rightarrow> jval" where
  "total_rounds_shown s =
     js_or (obj_get (debateState s) ''total_rounds'') (JNum (of_int (debateRounds s)))"

definition progress_width :: "app_state \<Rightarrow> real option" where
  "progress_width s =
     (case (js_to_number (current_round_shown s), js_to_number (total_rounds_shown s)) of
        (Some c, Some t) \<Rightarrow> Some ((c - 1) / t * 100)
      | _ \<Rightarrow> None)"

definition rounds_shown :: "app_state \<Rightarrow> nat list" where
  "rounds_shown s = map (\<lambda>i. i + 1) [0..<js_to_length (js_to_number (current_round_shown s))]"

definition participants_view :: "app_state \<Rightarrow> js_error + jval list" where
  "participants_view s =
     (let p = js_or (obj_get (debateState s) ''participants'') (JArr (map JStr (selectedModels s)))
      in case p of JArr xs \<Rightarrow> Inr xs | _ \<Rightarrow> Inl TypeError)"

text \<open>One statement of a round: its content and, when the time is truthy, the time.\<close>

definition statement_view :: "jval \<Rightarrow> js_error + jval option \<times> real option" where
  "statement_view response =
     (case jval_prop response ''content'' of
        Inl e \<Rightarrow> Inl e
      | Inr content \<Rightarrow>
          (case jval_prop response ''time'' of
             Inl e \<Rightarrow> Inl e
           | Inr None \<Rightarrow> Inr (content, None)
           | Inr (Some t) \<Rightarrow>
               if \<not> js_truthy t then Inr (content, None)
               else (case t of JNum r \<Rightarrow> Inr (content, Some r) | _ \<Rightarrow> Inl TypeError)))"

fun those_js :: "(js_error + 'a) list \<Rightarrow> js_error + 'a list" where
  "those_js [] = Inr []"
| "those_js (Inl e # xs) = Inl e"
| "those_js (Inr x # xs) = (case those_js xs of Inl e \<Rightarrow> Inl e | Inr ys \<Rightarrow> Inr (x # ys))"

definition round_view ::
  "app_state \<Rightarrow> nat \<Rightarrow> js_error + (string \<times> jval option \<times> real option) list" where
  "round_view s roundNum =
     (case obj_get (debateState s) (round_key roundNum) of
        None \<Rightarrow> Inr []
      | Some r \<Rightarrow>
          if \<not> js_truthy r then Inr []
          else those_js (map (\<lambda>(modelName, response).
                                case statement_view response of
                                  Inl e \<Rightarrow> Inl e
                                | Inr v \<Rightarrow> Inr (modelName, v))
                             (jval_entries r)))"

datatype debate_display = Debate_display
  "jval list"
  "real option"
  jval
  jval
  "(nat \<times> (string \<times> jval option \<times> real option) list) list"

definition renderDebateDisplay :: "app_state \<Rightarrow> js_error + debate_display option" where
  "renderDebateDisplay s =
     (if obj_keys (debateState s) = [] then Inr None
      else
        (case participants_view s of
           Inl e \<Rightarrow> Inl e
         | Inr ps \<Rightarrow>
             (case those_js (map (\<lambda>r. case round_view s r of Inl e \<Rightarrow> Inl e | Inr v \<Rightarrow> Inr (r, v))
                                 (rounds_shown s)) of
                Inl e \<Rightarrow> Inl e
              | Inr rounds \<Rightarrow>
                  Inr (Some (Debate_display ps (progress_width s) (current_round_shown s)
                                (total_rounds_shown s) rounds)))))"

section \<open>Dashboard and footer\<close>

definition dashboard_counts :: "app_state \<Rightarrow> nat \<times> nat" where
  "dashboard_counts s =
     (length (models s), length (filter (\<lambda>m. active m \<noteq> Some False) (models s)))"

text \<open>The dashboard as \<^verbatim>\<open>renderDashboard\<close> shows it: the system resources card, the model
  status card and the recent-activity log, each as (label, value) rows. The resource figures,
  the average response time and the activity log are literals of the JSX; only the two model
  counts depend on the state. Emoji of the labels are left out.\<close>

datatype dashboard_view = Dashboard_view
  "(string \<times> string) list"
  "(string \<times> string) list"
  "(string \<times> string \<times> string \<times> string) list"

definition renderDashboard :: "app_state \<Rightarrow> dashboard_view" where
  "renderDashboard s =
     (let (total, active) = dashboard_counts s
      in Dashboard_view
           [(''CPU Usage'', ''45.2%''), (''Memory Usage'', ''62.8%''), (''Disk Usage'', ''34.5%'')]
           [(''Total Models'', nat_to_dec total), (''Active Models'', nat_to_dec active),
            (''Avg Response Time'', ''2.3s'')]
           [(''2 minutes ago'', ''Q&A Query'', ''3 models'', ''Completed''),
            (''5 minutes ago'', ''Debate Started'', ''4 models'', ''In Progress''),
            (''10 minutes ago'', ''Model Refresh'', ''8 models'', ''Completed'')])"

definition footer_session :: "app_state \<Rightarrow> string" where
  "footer_session s = take 8 (sessionId s)"

text \<open>The banners above the mode's interface: the error message when \<^verbatim>\<open>error\<close> is
  truthy (an absent or empty message shows nothing), and the loading notice.\<close>

definition error_banner :: "app_state \<Rightarrow> string option" where
  "error_banner s = (case error s of Some e \<Rightarrow> if e = [] then None else Some e | None \<Rightarrow> None)"

definition loading_banner :: "app_state \<Rightarrow> bool" where
  "loading_banner s = loading s"

section \<open>What the screen offers\<close>

text \<open>
  The render succeeds for the current mode: the Q\&A and debate interfaces both render
  the model selection panel, and the debate interface its live display.
\<close>

definition renders :: "app_state \<Rightarrow> bool" where
  "renders s =
     (case currentMode s of
        Mode_dashboard \<Rightarrow> True
      | Mode_qa \<Rightarrow> \<not> isl (renderModelSelection s)
      | Mode_debate \<Rightarrow> \<not> isl (renderModelSelection s) \<and> \<not> isl (renderDebateDisplay s))"

definition submit_enabled :: "app_state \<Rightarrow> bool" where
  "submit_enabled s =
     (\<not> (isQuerying s \<or> js_trim (question s) = [] \<or> selectedModels s = []))"

definition start_enabled :: "app_state \<Rightarrow> bool" where
  "start_enabled s =
     (\<not> (isDebating s \<or> js_trim (debateTopic s) = [] \<or> selectedModels s = []))"

fun user_can :: "app_state \<Rightarrow> user_action \<Rightarrow> bool" where
  "user_can s (Select_model n) =
     (currentMode s \<noteq> Mode_dashboard \<and> n \<in> set (map name (models s)))"
| "user_can s Select_all = (currentMode s \<noteq> Mode_dashboard)"
| "user_can s Clear_all = (currentMode s \<noteq> Mode_dashboard)"
| "user_can s Select_diverse = (currentMode s \<noteq> Mode_dashboard)"
| "user_can s Refresh = (currentMode s \<noteq> Mode_dashboard)"
| "user_can s Submit_query = (currentMode s = Mode_qa \<and> submit_enabled s)"
| "user_can s Cancel_query = (currentMode s = Mode_qa \<and> isQuerying s)"
| "user_can s (Set_question v) = (currentMode s = Mode_qa)"
| "user_can s (Set_question_type v) = (currentMode s = Mode_qa \<and> v \<in> {''general'', ''coding''})"
| "user_can s Start_debate = (currentMode s = Mode_debate \<and> start_enabled s)"
| "user_can s Cancel_debate = (currentMode s = Mode_debate \<and> isDebating s)"
| "user_can s (Set_topic v) = (currentMode s = Mode_debate)"
| "user_can s (Set_rounds v) = (currentMode s = Mode_debate \<and> v \<in> {2, 3, 4, 5})"
| "user_can s (Set_mode m) = True"
| "user_can s Close_error = (error s \<noteq> None \<and> error s \<noteq> Some [])"

section \<open>The debate display\<close>

text \<open>
  C9. While the debate state holds numeric \<^verbatim>\<open>current_round\<close> \<open>c\<close> and \<^verbatim>\<open>total_rounds\<close>
  \<open>t\<close> with \<open>1 \<le> c \<le> t\<close>, the progress bar's width is \<open>(c - 1) / t * 100\<close> percent,
  which lies in \<open>[0, 100)\<close>: it never shows a full bar, even in the last round or
  after \<^verbatim>\<open>debate_complete\<close>.
\<close>

theorem progress_width_below_full:
  assumes "obj_get (debateState s) ''current_round'' = Some (JNum c)"
    and "obj_get (debateState s) ''total_rounds'' = Some (JNum t)"
    and "1 \<le> c" and "c \<le> t"
  shows "progress_width s = Some ((c - 1) / t * 100) \<and> 0 \<le> (c - 1) / t * 100 \<and> (c - 1) / t * 100 < 100"
proof -
  have t0: "0 < t" using assms(3,4) by simp
  have cr: "current_round_shown s = JNum c"
    using assms(1,3) by (simp add: current_round_shown_def js_or_def)
  have tr: "total_rounds_shown s = JNum t"
    using assms(2) t0 by (simp add: total_rounds_shown_def js_or_def)
  have "(c - 1) / t < 1" using t0 assms(4) by (simp add: divide_less_eq)
  then have lt: "(c - 1) / t * 100 < 100"
    using mult_strict_right_mono [of "(c - 1) / t" 1 100] by simp
  have ge: "0 \<le> (c - 1) / t * 100" using assms(3) t0 by (simp add: zero_le_divide_iff)
  show ?thesis using lt ge cr tr by (simp add: progress_width_def)
qed

theorem progress_width_below_full_witness:
  "progress_width ((initial_state ''s'')\<lparr>debateState := [(''current_round'', JNum 3), (''total_rounds'', JNum 3)]\<rparr>) = Some (200 / 3)"
proof -
  have "progress_width ((initial_state ''s'')\<lparr>debateState := [(''current_round'', JNum 3), (''total_rounds'', JNum 3)]\<rparr>) = Some ((3 - 1) / 3 * 100)
        \<and> 0 \<le> ((3::real) - 1) / 3 * 100 \<and> ((3::real) - 1) / 3 * 100 < 100"
    by (rule progress_width_below_full) (simp_all add: obj_get_def)
  then show ?thesis by simp
qed





text \<open>C30. A socket error event ends both a running query and a running debate, and the
  error banner then shows the event's message exactly when it is non-empty: an error
  event without a message ends the runs silently. Closing the banner hides it.\<close>

theorem socket_error_banner:
  "\<not> isQuerying (on_event (Error_event msg) s) \<and> \<not> isDebating (on_event (Error_event msg) s) \<and>
   (error_banner (on_event (Error_event msg) s) = None \<longleftrightarrow> msg = None \<or> msg = Some []) \<and>
   error_banner (fst (user_step Close_error (on_event (Error_event msg) s))) = None"
  by (cases msg) (simp_all add: on_error_def error_banner_def)

end
