(* ===== verification/Interaction.thy ===== *)
theory Interaction
  imports View
begin

text \<open>
  The client in its environment: which inputs can occur in a state (\<open>input_ok\<close>). A
  user action needs the screen to render and to offer that control (\<open>renders\<close> and
  \<open>user_can\<close> of theory \<open>View\<close>). Socket events arrive only after the mount has
  opened the socket. A catalogue reply lists distinct model names, as the backend's
  catalogue does. Replies may arrive at any time, which over-approximates the
  request/reply pairing. \<open>reachable\<close> is the set of states reachable from the
  initial render; \<open>run_inputs\<close> and \<open>inputs_ok\<close> run a concrete input sequence, for
  the witnesses.
\<close>

fun input_ok :: "app_state \<Rightarrow> client_input \<Rightarrow> bool" where
  "input_ok s Mounted = (\<not> socket s)"
| "input_ok s (Socket e) = socket s"
| "input_ok s (User a) = (renders s \<and> user_can s a)"
| "input_ok s (Models_reply r) =
     (case r of
        Fetch_ok d \<Rightarrow> distinct (map name (case models_with_info d of None \<Rightarrow> [] | Some ms \<Rightarrow> ms))
      | Fetch_failed \<Rightarrow> True)"
| "input_ok s (Query_reply r) = True"
| "input_ok s (Debate_reply r) = True"

inductive reachable :: "app_state \<Rightarrow> bool" where
  initial: "reachable (initial_state sid)"
| step: "reachable s \<Longrightarrow> input_ok s i \<Longrightarrow> reachable (fst (client_step i s))"

definition client_inv :: "app_state \<Rightarrow> bool" where
  "client_inv s \<longleftrightarrow>
     distinct (selectedModels s) \<and> distinct (map name (models s)) \<and>
     distinct (obj_keys (responses s)) \<and> distinct (obj_keys (debateState s))"

fun inputs_ok :: "client_input list \<Rightarrow> app_state \<Rightarrow> bool" where
  "inputs_ok [] s = True"
| "inputs_ok (i # is) s = (input_ok s i \<and> inputs_ok is (fst (client_step i s)))"

definition run_inputs :: "client_input list \<Rightarrow> app_state \<Rightarrow> app_state" where
  "run_inputs is s = fold (\<lambda>i s. fst (client_step i s)) is s"

lemmas eval_simps = initial_state_def renders_def renderModelSelection_def
  renderDebateDisplay_def categorize_def categorize_step_def model_category_def js_or_str_def
  object_prototype_keys_def submit_enabled_def start_enabled_def js_trim_def is_js_space_def
  toggle_selection_def max_debaters_def obj_get_def Let_def

section \<open>The invariant of the client state\<close>

lemma client_inv_initial: "client_inv (initial_state sid)"
  by (simp add: client_inv_def initial_state_def)

lemma client_inv_on_event: "client_inv s \<Longrightarrow> client_inv (on_event e s)"
  by (cases e) (simp_all add: client_inv_def client_simps distinct_obj_keys_spread)

lemma client_inv_user_step:
  "client_inv s \<Longrightarrow> client_inv (fst (user_step a s))"
  by (cases a) (auto simp: client_inv_def client_simps clear_all_def distinct_select_diverse)

lemma client_inv_step:
  assumes "client_inv s" and "input_ok s i"
  shows "client_inv (fst (client_step i s))"
proof (cases i)
  case (Socket e)
  with assms show ?thesis by (simp add: client_inv_on_event)
next
  case (User a)
  with assms show ?thesis by (simp add: client_inv_user_step)
next
  case (Models_reply r)
  with assms show ?thesis
    by (auto simp: client_inv_def client_simps split: fetch_result.splits option.splits)
qed (use assms in \<open>auto simp: client_inv_def client_simps split: fetch_result.splits\<close>)

lemma reachable_run_inputs:
  "reachable s \<Longrightarrow> inputs_ok is s \<Longrightarrow> reachable (run_inputs is s)"
proof (induction "is" arbitrary: s)
  case Nil
  then show ?case by (simp add: run_inputs_def)
next
  case (Cons i "is")
  then have "reachable (fst (client_step i s))" by (auto intro: reachable.step)
  with Cons show ?case by (simp add: run_inputs_def)
qed

text \<open>
  C12. In every reachable state the selection has no duplicate names, the catalogue
  has distinct names, and the \<^verbatim>\<open>responses\<close> and \<^verbatim>\<open>debateState\<close> objects have
  distinct keys (so the association-list model of the objects is exact).
\<close>

theorem reachable_client_inv: "reachable s \<Longrightarrow> client_inv s"
proof (induction rule: reachable.induct)
  case (initial sid)
  show ?case by (rule client_inv_initial)
next
  case (step s i)
  from step.IH step.hyps(2) show ?case by (rule client_inv_step)
qed


theorem reachable_client_inv_witness:
  "client_inv (run_inputs [Mounted, Models_reply (Fetch_ok \<lparr>success = True, reply_error = None, models_with_info = Some [\<lparr>name = ''llama'', category = Some ''General'', specialty = None, description = [], active = None\<rparr>]\<rparr>), User (Select_model ''llama'')] (initial_state ''sid''))"
proof -
  have "inputs_ok [Mounted, Models_reply (Fetch_ok \<lparr>success = True, reply_error = None, models_with_info = Some [\<lparr>name = ''llama'', category = Some ''General'', specialty = None, description = [], active = None\<rparr>]\<rparr>), User (Select_model ''llama'')] (initial_state ''sid'')"
    by (simp add: eval_simps client_simps)
  then have "reachable (run_inputs [Mounted, Models_reply (Fetch_ok \<lparr>success = True, reply_error = None, models_with_info = Some [\<lparr>name = ''llama'', category = Some ''General'', specialty = None, description = [], active = None\<rparr>]\<rparr>), User (Select_model ''llama'')] (initial_state ''sid''))"
    by (rule reachable_run_inputs [OF reachable.initial])
  then show ?thesis by (rule reachable_client_inv)
qed

section \<open>Behaviours the specification excludes\<close>

text \<open>
  C13. The client lets a query and a debate run at the same time under the same
  session id: the query button checks only \<^verbatim>\<open>isQuerying\<close> and the debate button only
  \<^verbatim>\<open>isDebating\<close>, so a reachable state has both set. The specification's
  \<^verbatim>\<open>SessionBusy\<close> rule is left to the backend.
\<close>

theorem concurrent_query_and_debate:
  "\<exists>s. reachable s \<and> isQuerying s \<and> isDebating s"
proof -
  let ?is = "[Mounted, Models_reply (Fetch_ok \<lparr>success = True, reply_error = None, models_with_info = Some [\<lparr>name = ''llama'', category = Some ''General'', specialty = None, description = [], active = None\<rparr>]\<rparr>), User (Select_model ''llama''), User (Set_question ''q''),
              User Submit_query, User (Set_mode Mode_debate), User (Set_topic ''t''),
              User Start_debate]"
  let ?s = "run_inputs ?is (initial_state ''sid'')"
  have ok: "inputs_ok ?is (initial_state ''sid'')"
    by (simp add: eval_simps client_simps)
  have "reachable ?s"
    by (rule reachable_run_inputs [OF reachable.initial ok])
  moreover have "isQuerying ?s \<and> isDebating ?s"
    by (simp add: run_inputs_def eval_simps client_simps)
  ultimately show ?thesis by blast
qed

text \<open>
  C14. Refreshing the catalogue does not prune the selection: a reachable state
  selects a model name that the current catalogue no longer lists, and a query sent
  from there names it.
\<close>

theorem selection_survives_refresh:
  "\<exists>s n. reachable s \<and> n \<in> set (selectedModels s) \<and> n \<notin> set (map name (models s))"
proof -
  let ?is = "[Mounted, Models_reply (Fetch_ok \<lparr>success = True, reply_error = None, models_with_info = Some [\<lparr>name = ''llama'', category = Some ''General'', specialty = None, description = [], active = None\<rparr>]\<rparr>), User (Select_model ''llama''), User Refresh, Models_reply (Fetch_ok \<lparr>success = True, reply_error = None, models_with_info = Some [\<lparr>name = ''phi'', category = None, specialty = None, description = [], active = None\<rparr>]\<rparr>)]"
  let ?s = "run_inputs ?is (initial_state ''sid'')"
  have ok: "inputs_ok ?is (initial_state ''sid'')"
    by (simp add: eval_simps client_simps)
  have "reachable ?s"
    by (rule reachable_run_inputs [OF reachable.initial ok])
  moreover have "''llama'' \<in> set (selectedModels ?s) \<and> ''llama'' \<notin> set (map name (models ?s))"
    by (simp add: run_inputs_def eval_simps client_simps)
  ultimately show ?thesis by blast
qed

end
