(* ===== verification/Orchestrator_Query.thy ===== *)
theory Orchestrator_Query
  imports Wire
begin

text \<open>
  The backend's Q\&A fan-out, modelled from the specification (sections 3, 4.1, 4.2, 5
  and 7) because the backend is not part of the source. A response record moves from
  \<open>St_processing\<close> to exactly one terminal status and never back. A query run keeps one
  record per distinct backend of the dispatch set. The first resolution of an
  invocation (success, failure or an observed cancellation, such as a timeout) fixes
  its record and emits one \<^verbatim>\<open>response_update\<close>; the resolution that makes every record
  terminal also emits the single \<^verbatim>\<open>query_complete\<close>. Cancelling the run flips every
  open record to \<open>St_cancelled\<close>, emits the completion at once, and makes every later
  result a no-op (sticky cancellation). Every operation returns the events it emits,
  in order.
\<close>

datatype rstatus = St_pending | St_processing | St_completed | St_error | St_cancelled

definition terminal :: "rstatus \<Rightarrow> bool" where
  "terminal st \<longleftrightarrow> st = St_completed \<or> st = St_error \<or> st = St_cancelled"

fun status_wire :: "rstatus \<Rightarrow> string" where
  "status_wire St_pending = ''pending''"
| "status_wire St_processing = ''processing''"
| "status_wire St_completed = ''completed''"
| "status_wire St_error = ''error''"
| "status_wire St_cancelled = ''cancelled''"

record response_record =
  rec_status :: rstatus
  rec_text :: "string option"
  rec_duration :: "real option"
  rec_error :: "string option"

definition processing_record :: response_record where
  "processing_record =
     \<lparr>rec_status = St_processing, rec_text = None, rec_duration = None, rec_error = None\<rparr>"

definition cancelled_record :: response_record where
  "cancelled_record =
     \<lparr>rec_status = St_cancelled, rec_text = None, rec_duration = None, rec_error = None\<rparr>"

datatype outcome =
    Outcome_ok string real
  | Outcome_failed string
  | Outcome_cancelled

fun resolve_record :: "outcome \<Rightarrow> response_record" where
  "resolve_record (Outcome_ok text duration) =
     \<lparr>rec_status = St_completed, rec_text = Some text, rec_duration = Some duration, rec_error = None\<rparr>"
| "resolve_record (Outcome_failed msg) =
     \<lparr>rec_status = St_error, rec_text = None, rec_duration = None, rec_error = Some msg\<rparr>"
| "resolve_record Outcome_cancelled = cancelled_record"

text \<open>A record is well formed when text and duration are present exactly when it is
  completed and an error detail exactly when it failed (section 3).\<close>

definition record_wf :: "response_record \<Rightarrow> bool" where
  "record_wf r \<longleftrightarrow>
     (rec_text r \<noteq> None \<longleftrightarrow> rec_status r = St_completed) \<and>
     (rec_duration r \<noteq> None \<longleftrightarrow> rec_status r = St_completed) \<and>
     (rec_error r \<noteq> None \<longleftrightarrow> rec_status r = St_error)"

definition to_wire :: "model_name \<Rightarrow> response_record \<Rightarrow> response_update" where
  "to_wire m r =
     \<lparr>ru_model = m, ru_status = status_wire (rec_status r), ru_content = rec_text r,
      ru_time = rec_duration r, ru_error = rec_error r\<rparr>"

datatype start_error = InvalidRequest | TooManyParticipants | SessionBusy

record query_run =
  q_backends :: "model_name list"
  q_records :: "model_name \<rightharpoonup> response_record"
  q_cancelled :: bool
  q_complete :: bool

definition all_terminal :: "model_name list \<Rightarrow> (model_name \<rightharpoonup> response_record) \<Rightarrow> bool" where
  "all_terminal bs recs \<longleftrightarrow>
     list_all (\<lambda>b. case recs b of Some r \<Rightarrow> terminal (rec_status r) | None \<Rightarrow> False) bs"

definition cancel_open :: "response_record \<Rightarrow> response_record" where
  "cancel_open r = (if terminal (rec_status r) then r else cancelled_record)"

definition query_start :: "model_name list \<Rightarrow> start_error + query_run \<times> server_event list" where
  "query_start backendSet =
     (if backendSet = [] then Inl InvalidRequest
      else
        (let bs = first_occurrences backendSet in
         Inr (\<lparr>q_backends = bs, q_records = map_of (map (\<lambda>b. (b, processing_record)) bs),
                q_cancelled = False, q_complete = False\<rparr>,
              map (\<lambda>b. Response_update (to_wire b processing_record)) bs)))"

definition query_resolve ::
  "model_name \<Rightarrow> outcome \<Rightarrow> query_run \<Rightarrow> query_run \<times> server_event list" where
  "query_resolve m out run =
     (case q_records run m of
        None \<Rightarrow> (run, [])
      | Some r \<Rightarrow>
          if q_cancelled run \<or> rec_status r \<noteq> St_processing then (run, [])
          else
            (let r' = resolve_record out;
                 recs = (q_records run)(m \<mapsto> r')
             in if all_terminal (q_backends run) recs
                then (run\<lparr>q_records := recs, q_complete := True\<rparr>,
                      [Response_update (to_wire m r'), Query_complete])
                else (run\<lparr>q_records := recs\<rparr>, [Response_update (to_wire m r')])))"

definition query_cancel :: "query_run \<Rightarrow> query_run \<times> server_event list" where
  "query_cancel run =
     (if q_complete run then (run\<lparr>q_cancelled := True\<rparr>, [])
      else (run\<lparr>q_cancelled := True, q_records := map_option cancel_open \<circ> q_records run,
                q_complete := True\<rparr>,
            [Query_complete]))"

datatype query_input = Q_resolve model_name outcome | Q_cancel

fun query_step :: "query_input \<Rightarrow> query_run \<Rightarrow> query_run \<times> server_event list" where
  "query_step (Q_resolve m out) run = query_resolve m out run"
| "query_step Q_cancel run = query_cancel run"

text \<open>A run of several inputs, with the events emitted in order.\<close>

fun query_run_inputs :: "query_input list \<Rightarrow> query_run \<Rightarrow> query_run \<times> server_event list" where
  "query_run_inputs [] run = (run, [])"
| "query_run_inputs (i # is) run =
     (let (run1, ev1) = query_step i run; (run2, ev2) = query_run_inputs is run1
      in (run2, ev1 @ ev2))"

section \<open>The record lifecycle and the run invariant\<close>

text \<open>
  \<open>status_step\<close> is the legal status transition of section 3. \<open>query_inv\<close> is the
  invariant of a run: a distinct dispatch set, a record for each backend,
  well-formed records past \<open>pending\<close>, completion exactly when all records are
  terminal, and cancellation only of complete runs.
\<close>

inductive status_step :: "rstatus \<Rightarrow> rstatus \<Rightarrow> bool" where
  dispatch: "status_step St_pending St_processing"
| finish: "terminal st \<Longrightarrow> status_step St_processing st"

code_pred status_step .

definition query_inv :: "query_run \<Rightarrow> bool" where
  "query_inv run \<longleftrightarrow>
     distinct (q_backends run) \<and> dom (q_records run) = set (q_backends run) \<and>
     (\<forall>m r. q_records run m = Some r \<longrightarrow> record_wf r \<and> rec_status r \<noteq> St_pending) \<and>
     (q_complete run \<longleftrightarrow> all_terminal (q_backends run) (q_records run)) \<and>
     (q_cancelled run \<longrightarrow> q_complete run)"

section \<open>Lemmas\<close>

lemma terminal_simps [simp]:
  "terminal St_completed" "terminal St_error" "terminal St_cancelled"
  "\<not> terminal St_processing" "\<not> terminal St_pending"
  by (simp_all add: terminal_def)

lemma record_wf_resolve [simp]: "record_wf (resolve_record out)"
  by (cases out) (simp_all add: record_wf_def cancelled_record_def)

lemma terminal_resolve [simp]: "terminal (rec_status (resolve_record out))"
  by (cases out) (simp_all add: cancelled_record_def)

lemma cancel_open_terminal [simp]: "terminal (rec_status (cancel_open r))"
  by (simp add: cancel_open_def cancelled_record_def)

lemma record_wf_cancel_open [simp]: "record_wf r \<Longrightarrow> record_wf (cancel_open r)"
  by (simp add: cancel_open_def cancelled_record_def record_wf_def)

lemma resolve_not_pending [simp]: "rec_status (resolve_record out) \<noteq> St_pending"
  by (cases out) (simp_all add: cancelled_record_def)

lemma record_wf_cancelled [simp]: "record_wf cancelled_record"
  by (simp add: record_wf_def cancelled_record_def)

lemma cancel_open_not_pending [simp]:
  "rec_status r \<noteq> St_pending \<Longrightarrow> rec_status (cancel_open r) \<noteq> St_pending"
  by (simp add: cancel_open_def cancelled_record_def)

lemma all_terminal_iff:
  "all_terminal bs recs \<longleftrightarrow> (\<forall>b \<in> set bs. \<exists>r. recs b = Some r \<and> terminal (rec_status r))"
  by (auto simp: all_terminal_def list_all_iff split: option.splits)

lemma query_start_inv:
  "query_start bs = Inr (run, evs) \<Longrightarrow> query_inv run"
  by (auto simp: query_start_def query_inv_def map_of_map_keys_iff processing_record_def Let_def
                 record_wf_def all_terminal_iff dom_def split: if_splits)

lemma query_resolve_inv:
  assumes "query_inv run" shows "query_inv (fst (query_resolve m out run))"
proof (cases "q_records run m")
  case None
  then show ?thesis using assms by (simp add: query_resolve_def)
next
  case (Some r)
  show ?thesis
  proof (cases "q_cancelled run \<or> rec_status r \<noteq> St_processing")
    case True
    then show ?thesis using assms Some by (simp add: query_resolve_def)
  next
    case False
    have m: "m \<in> set (q_backends run)" using assms Some by (auto simp: query_inv_def)
    with False have nc: "\<not> q_complete run"
      using assms Some by (fastforce simp: query_inv_def all_terminal_iff)
    show ?thesis
      using assms Some False nc m
      by (auto simp: query_resolve_def query_inv_def Let_def all_terminal_iff split: if_splits)
  qed
qed

lemma query_cancel_inv:
  assumes "query_inv run" shows "query_inv (fst (query_cancel run))"
proof (cases "q_complete run")
  case True
  with assms show ?thesis by (simp add: query_cancel_def query_inv_def)
next
  case False
  have dom: "dom (q_records run) = set (q_backends run)"
    using assms by (simp add: query_inv_def)
  have "all_terminal (q_backends run) (map_option cancel_open \<circ> q_records run)"
    unfolding all_terminal_iff
  proof
    fix b assume "b \<in> set (q_backends run)"
    with dom obtain z where "q_records run b = Some z" by blast
    then show "\<exists>r. (map_option cancel_open \<circ> q_records run) b = Some r \<and> terminal (rec_status r)"
      by simp
  qed
  with assms False dom show ?thesis
    by (auto simp: query_cancel_def query_inv_def dom_map_option_comp)
qed

lemma query_step_inv: "query_inv run \<Longrightarrow> query_inv (fst (query_step i run))"
  by (cases i) (simp_all add: query_resolve_inv query_cancel_inv)

lemma query_step_terminal_kept:
  assumes "q_records run m = Some r" and "terminal (rec_status r)"
  shows "q_records (fst (query_step i run)) m = Some r"
proof (cases i)
  case (Q_resolve m' out)
  then show ?thesis using assms
    by (auto simp: query_resolve_def Let_def split: option.splits)
next
  case Q_cancel
  then show ?thesis using assms by (simp add: query_cancel_def cancel_open_def)
qed

lemma query_cancel_sticky:
  "query_resolve m out (fst (query_cancel run)) = (fst (query_cancel run), [])"
  by (simp add: query_resolve_def query_cancel_def split: option.splits)


lemma query_run_inputs_Cons:
  "query_run_inputs (i # is) run =
     (fst (query_run_inputs is (fst (query_step i run))),
      snd (query_step i run) @ snd (query_run_inputs is (fst (query_step i run))))"
  by (simp add: split_beta)

declare query_run_inputs.simps(2) [simp del]

lemma query_step_backends [simp]: "q_backends (fst (query_step i run)) = q_backends run"
  by (cases i) (auto simp: query_resolve_def query_cancel_def Let_def split: option.splits)

lemma query_run_backends [simp]: "q_backends (fst (query_run_inputs is run)) = q_backends run"
  by (induction "is" arbitrary: run) (simp_all add: query_run_inputs_Cons)

lemma query_run_inputs_inv:
  "query_inv run \<Longrightarrow> query_inv (fst (query_run_inputs is run))"
  by (induction "is" arbitrary: run) (simp_all add: query_run_inputs_Cons query_step_inv)

lemma query_run_terminal_kept:
  "q_records run m = Some r \<Longrightarrow> terminal (rec_status r) \<Longrightarrow>
   q_records (fst (query_run_inputs is run)) m = Some r"
  by (induction "is" arbitrary: run) (simp_all add: query_run_inputs_Cons query_step_terminal_kept)

lemma query_step_complete_mono:
  assumes "query_inv run" and "q_complete run"
  shows "q_complete (fst (query_step i run))"
proof -
  have "\<forall>b \<in> set (q_backends run). \<exists>r. q_records run b = Some r \<and> terminal (rec_status r)"
    using assms by (simp add: query_inv_def all_terminal_iff)
  then have "\<forall>b \<in> set (q_backends run).
               \<exists>r. q_records (fst (query_step i run)) b = Some r \<and> terminal (rec_status r)"
    using query_step_terminal_kept by blast
  moreover have "query_inv (fst (query_step i run))"
    using assms(1) by (rule query_step_inv)
  ultimately show ?thesis by (simp add: query_inv_def all_terminal_iff)
qed

lemma query_run_complete_mono:
  assumes "query_inv run" and "q_complete run"
  shows "q_complete (fst (query_run_inputs is run))"
proof -
  have "\<forall>b \<in> set (q_backends run). \<exists>r. q_records run b = Some r \<and> terminal (rec_status r)"
    using assms by (simp add: query_inv_def all_terminal_iff)
  then have "\<forall>b \<in> set (q_backends run).
               \<exists>r. q_records (fst (query_run_inputs is run)) b = Some r \<and> terminal (rec_status r)"
    using query_run_terminal_kept by blast
  moreover have "query_inv (fst (query_run_inputs is run))"
    using assms(1) by (rule query_run_inputs_inv)
  ultimately show ?thesis by (simp add: query_inv_def all_terminal_iff)
qed

lemma query_step_complete_event:
  assumes "query_inv run"
  shows "count_list (snd (query_step i run)) Query_complete =
           (if \<not> q_complete run \<and> q_complete (fst (query_step i run)) then 1 else 0)"
proof (cases i)
  case (Q_resolve m out)
  show ?thesis
  proof (cases "q_records run m")
    case None
    with Q_resolve show ?thesis by (simp add: query_resolve_def)
  next
    case (Some r)
    show ?thesis
    proof (cases "q_cancelled run \<or> rec_status r \<noteq> St_processing")
      case True
      with Q_resolve Some show ?thesis by (simp add: query_resolve_def)
    next
      case False
      have m: "m \<in> set (q_backends run)" using assms Some by (auto simp: query_inv_def)
      with False have nc: "\<not> q_complete run"
        using assms Some by (fastforce simp: query_inv_def all_terminal_iff)
      with Q_resolve Some False show ?thesis by (simp add: query_resolve_def Let_def)
    qed
  qed
next
  case Q_cancel
  then show ?thesis by (simp add: query_cancel_def)
qed

lemma query_run_complete_events:
  "query_inv run \<Longrightarrow>
   count_list (snd (query_run_inputs is run)) Query_complete =
     (if \<not> q_complete run \<and> q_complete (fst (query_run_inputs is run)) then 1 else 0)"
proof (induction "is" arbitrary: run)
  case Nil
  then show ?case by simp
next
  case (Cons i "is")
  let ?run1 = "fst (query_step i run)"
  have inv1: "query_inv ?run1" using Cons.prems by (rule query_step_inv)
  have mono: "q_complete ?run1 \<Longrightarrow> q_complete (fst (query_run_inputs is ?run1))"
    using inv1 query_run_complete_mono by blast
  show ?case
    using Cons.IH [OF inv1] query_step_complete_event [OF Cons.prems, of i] mono
      query_step_complete_mono [OF Cons.prems, of i]
    by (auto simp: query_run_inputs_Cons)
qed

lemma query_step_resolves:
  assumes "query_inv run" and "m \<in> set (q_backends run)"
    and "i = Q_resolve m out \<or> i = Q_cancel"
  shows "\<exists>r. q_records (fst (query_step i run)) m = Some r \<and> terminal (rec_status r)"
proof -
  from assms(1,2) have "m \<in> dom (q_records run)" by (simp add: query_inv_def)
  then obtain r where r: "q_records run m = Some r" by blast
  with assms(1) have np: "rec_status r \<noteq> St_pending" by (simp add: query_inv_def)
  show ?thesis
  proof (cases "terminal (rec_status r)")
    case True
    then show ?thesis using r query_step_terminal_kept by blast
  next
    case nt: False
    then have proc: "rec_status r = St_processing" using np
      by (cases "rec_status r") (simp_all add: terminal_def)
    show ?thesis
    proof (cases "q_cancelled run")
      case True
      with assms(1) have "q_complete run" unfolding query_inv_def by blast
      with assms(1,2) nt r have False by (auto simp: query_inv_def all_terminal_iff)
      then show ?thesis ..
    next
      case False
      have "\<not> q_complete run"
        using assms(1,2) r nt by (auto simp: query_inv_def all_terminal_iff)
      with False assms(3) r proc show ?thesis
        by (auto simp: query_resolve_def query_cancel_def Let_def)
    qed
  qed
qed

lemma query_run_resolves:
  assumes "query_inv run" and "m \<in> set (q_backends run)"
    and "(\<exists>out. Q_resolve m out \<in> set is) \<or> Q_cancel \<in> set is"
  shows "\<exists>r. q_records (fst (query_run_inputs is run)) m = Some r \<and> terminal (rec_status r)"
  using assms
proof (induction "is" arbitrary: run)
  case Nil
  then show ?case by simp
next
  case (Cons i "is")
  let ?run1 = "fst (query_step i run)"
  have inv1: "query_inv ?run1" using Cons.prems(1) by (rule query_step_inv)
  have m1: "m \<in> set (q_backends ?run1)" using Cons.prems(2) by simp
  show ?case
  proof (cases "(\<exists>out. i = Q_resolve m out) \<or> i = Q_cancel")
    case True
    then obtain r where "q_records ?run1 m = Some r" "terminal (rec_status r)"
      using query_step_resolves [OF Cons.prems(1,2)] by blast
    then show ?thesis by (auto simp: query_run_inputs_Cons dest: query_run_terminal_kept)
  next
    case False
    with Cons.prems(3) have "(\<exists>out. Q_resolve m out \<in> set is) \<or> Q_cancel \<in> set is" by auto
    from Cons.IH [OF inv1 m1 this] show ?thesis by (simp add: query_run_inputs_Cons)
  qed
qed

text \<open>
  C15. A started query run completes: once every backend of the dispatch set has
  delivered a result (in any order, with any outcomes, duplicates allowed), or once
  the run is cancelled, the run is complete, and the whole event stream, from the
  dispatch on, has exactly one \<^verbatim>\<open>query_complete\<close>.
\<close>

theorem query_completes:
  assumes "query_start backendSet = Inr (run0, ev0)"
    and "(\<forall>m \<in> set backendSet. \<exists>out. Q_resolve m out \<in> set is) \<or> Q_cancel \<in> set is"
  shows "q_complete (fst (query_run_inputs is run0)) \<and>
         count_list (ev0 @ snd (query_run_inputs is run0)) Query_complete = 1"
proof -
  have inv0: "query_inv run0" using assms(1) by (rule query_start_inv)
  have bs: "q_backends run0 = first_occurrences backendSet" and nc: "\<not> q_complete run0"
    and ev0: "count_list ev0 Query_complete = 0"
    using assms(1) by (auto simp: query_start_def Let_def count_list_0_iff split: if_splits)
  let ?run = "fst (query_run_inputs is run0)"
  have "\<forall>m \<in> set (q_backends run0). \<exists>r. q_records ?run m = Some r \<and> terminal (rec_status r)"
    using query_run_resolves [OF inv0] assms(2) bs by auto
  moreover have "query_inv ?run" using inv0 by (rule query_run_inputs_inv)
  moreover have "q_backends ?run = q_backends run0" by simp
  ultimately have compl: "q_complete ?run" by (simp add: query_inv_def all_terminal_iff)
  show ?thesis using compl nc ev0 query_run_complete_events [OF inv0, of "is"] by simp
qed


lemma query_step_record:
  assumes "query_inv run" and "q_records run m = Some r"
  shows "\<exists>r'. q_records (fst (query_step i run)) m = Some r' \<and>
              (r' = r \<or> status_step (rec_status r) (rec_status r'))"
proof (cases "terminal (rec_status r)")
  case True
  then show ?thesis using assms(2) query_step_terminal_kept by blast
next
  case False
  with assms have proc: "rec_status r = St_processing"
    by (cases "rec_status r") (auto simp: query_inv_def terminal_def)
  show ?thesis
  proof (cases i)
    case (Q_resolve m' out)
    then show ?thesis using assms(2) proc
      by (auto simp: query_resolve_def Let_def intro: status_step.finish split: option.splits)
  next
    case Q_cancel
    then show ?thesis using assms(2) proc
      by (auto simp: query_cancel_def intro: status_step.finish)
  qed
qed

lemma query_run_record:
  "query_inv run \<Longrightarrow> q_records run m = Some r \<Longrightarrow>
   \<exists>r'. q_records (fst (query_run_inputs is run)) m = Some r' \<and>
        status_step\<^sup>*\<^sup>* (rec_status r) (rec_status r')"
proof (induction "is" arbitrary: run r)
  case Nil
  then show ?case by simp
next
  case (Cons i "is")
  from query_step_record [OF Cons.prems] obtain r1 where
    r1: "q_records (fst (query_step i run)) m = Some r1"
    and st: "r1 = r \<or> status_step (rec_status r) (rec_status r1)" by blast
  from Cons.IH [OF query_step_inv [OF Cons.prems(1)] r1] obtain r' where
    "q_records (fst (query_run_inputs is (fst (query_step i run)))) m = Some r'"
    and "status_step\<^sup>*\<^sup>* (rec_status r1) (rec_status r')" by blast
  with st show ?case
    by (auto simp: query_run_inputs_Cons intro: converse_rtranclp_into_rtranclp)
qed

text \<open>
  C17. Whatever inputs follow, a response record only moves along the legal
  lifecycle \<open>pending \<rightarrow> processing \<rightarrow> terminal\<close> (the reflexive-transitive closure of
  \<open>status_step\<close>), and a record that is terminal is never changed again.
\<close>

theorem record_lifecycle:
  assumes "query_inv run" and "q_records run m = Some r"
  shows "\<exists>r'. q_records (fst (query_run_inputs is run)) m = Some r' \<and>
              status_step\<^sup>*\<^sup>* (rec_status r) (rec_status r') \<and>
              (terminal (rec_status r) \<longrightarrow> r' = r)"
  using query_run_record [OF assms, of "is"] query_run_terminal_kept [OF assms(2), of "is"]
  by auto

lemma query_run_after_cancel:
  "q_cancelled run \<Longrightarrow> q_complete run \<Longrightarrow> query_run_inputs is run = (run, [])"
proof (induction "is")
  case Nil
  then show ?case by simp
next
  case (Cons i "is")
  have "query_step i run = (run, [])"
    using Cons.prems by (cases i) (simp_all add: query_resolve_def query_cancel_def split: option.splits)
  with Cons show ?case by (simp add: query_run_inputs_Cons)
qed

lemma cancel_open_terminal_id: "terminal (rec_status r) \<Longrightarrow> cancel_open r = r"
  by (simp add: cancel_open_def)

lemma cancel_open_open: "\<not> terminal (rec_status r) \<Longrightarrow> cancel_open r = cancelled_record"
  by (simp add: cancel_open_def)

lemma status_cancelled_record [simp]: "rec_status cancelled_record = St_cancelled"
  by (simp add: cancelled_record_def)

lemma query_cancel_records:
  "\<not> q_complete run \<Longrightarrow> q_records (fst (query_cancel run)) m = map_option cancel_open (q_records run m)"
  by (simp add: query_cancel_def)

text \<open>
  C16. Cancelling a running query flips exactly the records that were still open to
  \<open>cancelled\<close> and emits the run-level completion. No later result, success or
  failure, emits an event or changes the run again (sticky cancellation).
\<close>

theorem query_cancel_exact:
  assumes "query_inv run" and "\<not> q_complete run"
  shows "snd (query_cancel run) = [Query_complete] \<and>
         {m. \<exists>r. q_records run m = Some r \<and> \<not> terminal (rec_status r)} =
         {m. \<exists>r r'. q_records run m = Some r \<and> q_records (fst (query_cancel run)) m = Some r' \<and>
                   rec_status r \<noteq> St_cancelled \<and> rec_status r' = St_cancelled} \<and>
         (\<forall>is. query_run_inputs is (fst (query_cancel run)) = (fst (query_cancel run), []))"
proof -
  have "q_cancelled (fst (query_cancel run)) \<and> q_complete (fst (query_cancel run))"
    using assms(2) by (simp add: query_cancel_def)
  moreover have "{m. \<exists>r. q_records run m = Some r \<and> \<not> terminal (rec_status r)} =
         {m. \<exists>r r'. q_records run m = Some r \<and> q_records (fst (query_cancel run)) m = Some r' \<and>
                   rec_status r \<noteq> St_cancelled \<and> rec_status r' = St_cancelled}"
    using assms(2)
    by (auto simp: query_cancel_records cancel_open_terminal_id cancel_open_open terminal_def)
  ultimately show ?thesis
    using assms(2) by (simp add: query_cancel_def query_run_after_cancel)
qed



theorem query_completes_witness:
  "case query_start [''a'', ''b''] of
     Inl e \<Rightarrow> False
   | Inr (run0, ev0) \<Rightarrow>
       q_complete (fst (query_run_inputs [Q_resolve ''b'' (Outcome_failed ''e''),
                                          Q_resolve ''a'' (Outcome_ok ''t'' 1)] run0)) \<and>
       count_list (ev0 @ snd (query_run_inputs [Q_resolve ''b'' (Outcome_failed ''e''),
                                          Q_resolve ''a'' (Outcome_ok ''t'' 1)] run0)) Query_complete = 1"
proof -
  obtain run0 ev0 where st: "query_start [''a'', ''b''] = Inr (run0, ev0)"
    by (simp add: query_start_def Let_def)
  have "q_complete (fst (query_run_inputs [Q_resolve ''b'' (Outcome_failed ''e''),
                                          Q_resolve ''a'' (Outcome_ok ''t'' 1)] run0)) \<and>
       count_list (ev0 @ snd (query_run_inputs [Q_resolve ''b'' (Outcome_failed ''e''),
                                          Q_resolve ''a'' (Outcome_ok ''t'' 1)] run0)) Query_complete = 1"
    by (rule query_completes [OF st]) simp
  with st show ?thesis by simp
qed


theorem record_lifecycle_witness:
  "case query_start [''a''] of
     Inl e \<Rightarrow> False
   | Inr (run0, ev0) \<Rightarrow>
       \<exists>r'. q_records (fst (query_run_inputs [Q_resolve ''a'' (Outcome_ok ''t'' 1), Q_cancel] run0)) ''a''
             = Some r' \<and> status_step\<^sup>*\<^sup>* St_processing (rec_status r')"
proof -
  obtain run0 ev0 where st: "query_start [''a''] = Inr (run0, ev0)"
    by (simp add: query_start_def Let_def)
  have inv: "query_inv run0" using st by (rule query_start_inv)
  have r: "q_records run0 ''a'' = Some processing_record"
    using st by (auto simp: query_start_def Let_def first_occurrences_def)
  from record_lifecycle [OF inv r, of "[Q_resolve ''a'' (Outcome_ok ''t'' 1), Q_cancel]"]
  show ?thesis using st by (auto simp: processing_record_def)
qed

theorem query_cancel_exact_witness:
  "case query_start [''a'', ''b''] of
     Inl e \<Rightarrow> False
   | Inr (run0, ev0) \<Rightarrow>
       snd (query_cancel (fst (query_resolve ''a'' (Outcome_ok ''t'' 1) run0))) = [Query_complete] \<and>
       query_run_inputs [Q_resolve ''b'' (Outcome_ok ''late'' 3)]
         (fst (query_cancel (fst (query_resolve ''a'' (Outcome_ok ''t'' 1) run0))))
       = (fst (query_cancel (fst (query_resolve ''a'' (Outcome_ok ''t'' 1) run0))), [])"
proof -
  obtain run0 ev0 where st: "query_start [''a'', ''b''] = Inr (run0, ev0)"
    by (simp add: query_start_def Let_def)
  let ?run1 = "fst (query_resolve ''a'' (Outcome_ok ''t'' 1) run0)"
  have inv: "query_inv ?run1"
    using query_resolve_inv [OF query_start_inv [OF st]] by simp
  have nc: "\<not> q_complete ?run1"
    using st by (auto simp: query_start_def Let_def first_occurrences_def query_resolve_def
                            all_terminal_def processing_record_def)
  from query_cancel_exact [OF inv nc] st show ?thesis by simp
qed

end
