(* ===== verification/Orchestrator_Debate.thy ===== *)
theory Orchestrator_Debate
  imports Orchestrator_Query
begin

text \<open>
  The backend's debate state machine, modelled from the specification (sections 3,
  4.3, 6 and 7) because the backend is not part of the source. A debate run keeps one
  round record per round dispatched so far; the last is the current round. Results of
  the current round are recorded as in a query run, and each terminal transition emits
  a \<^verbatim>\<open>debate_update\<close> with the current round index, the total and the round's
  statements. When every record of the current round is terminal (the barrier), the
  run either completes (after the last round) or dispatches the next round. Its prompt
  is composed from the topic and the full transcript of all strictly prior rounds.
  Open question of the specification, the policy chosen here: a backend that errors
  keeps participating in later rounds, and its missing statement is left out of the
  transcript. Cancellation flips the open records of the current round, emits
  \<^verbatim>\<open>debate_complete\<close> and prevents any further round.
\<close>

type_synonym round_record = "model_name \<rightharpoonup> response_record"

record debate_run =
  d_topic :: string
  d_backends :: "model_name list"
  d_total :: nat
  d_rounds :: "round_record list"
  d_prompts :: "string list"
  d_cancelled :: bool
  d_complete :: bool

definition newline :: string where
  "newline = [CHR 0x0A]"

definition fresh_round :: "model_name list \<Rightarrow> round_record" where
  "fresh_round bs = map_of (map (\<lambda>b. (b, processing_record)) bs)"

definition statement_line :: "round_record \<Rightarrow> model_name \<Rightarrow> string" where
  "statement_line rr b =
     (case rr b of
        None \<Rightarrow> []
      | Some r \<Rightarrow> (case rec_text r of None \<Rightarrow> [] | Some t \<Rightarrow> b @ '': '' @ t @ newline))"

fun transcript :: "model_name list \<Rightarrow> nat \<Rightarrow> round_record list \<Rightarrow> string" where
  "transcript bs i [] = []"
| "transcript bs i (rr # rrs) =
     ''Round '' @ nat_to_dec i @ newline @ concat (map (statement_line rr) bs)
     @ transcript bs (Suc i) rrs"

definition compose_prompt :: "string \<Rightarrow> model_name list \<Rightarrow> round_record list \<Rightarrow> string" where
  "compose_prompt topic bs prior = topic @ newline @ transcript bs 1 prior"

definition wire_round_key :: "nat \<Rightarrow> string" where
  "wire_round_key n = ''round_'' @ nat_to_dec n"

definition round_payload :: "model_name list \<Rightarrow> round_record \<Rightarrow> jval" where
  "round_payload bs rr =
     JObj (concat (map (\<lambda>b. case rr b of
                               Some r \<Rightarrow>
                                 (case (rec_text r, rec_duration r) of
                                    (Some t, Some d) \<Rightarrow> [(b, JObj [(''content'', JStr t), (''time'', JNum d)])]
                                  | _ \<Rightarrow> [])
                             | None \<Rightarrow> []) bs))"

definition debate_payload :: "debate_run \<Rightarrow> jval js_object" where
  "debate_payload run =
     [(''current_round'', JNum (real (length (d_rounds run)))),
      (''total_rounds'', JNum (real (d_total run))),
      (wire_round_key (length (d_rounds run)), round_payload (d_backends run) (last (d_rounds run))),
      (''participants'', JArr (map JStr (d_backends run)))]"

definition debate_init :: "string \<Rightarrow> model_name list \<Rightarrow> nat \<Rightarrow> debate_run" where
  "debate_init topic bs roundCount =
     \<lparr>d_topic = topic, d_backends = bs, d_total = roundCount,
      d_rounds = [fresh_round bs], d_prompts = [compose_prompt topic bs []],
      d_cancelled = False, d_complete = False\<rparr>"

definition debate_start ::
  "nat \<Rightarrow> nat \<Rightarrow> string \<Rightarrow> model_name list \<Rightarrow> nat \<Rightarrow> start_error + debate_run \<times> server_event list" where
  "debate_start max_participants max_rounds topic backendSet roundCount =
     (let bs = first_occurrences backendSet in
      if bs = [] then Inl InvalidRequest
      else if max_participants < length bs then Inl TooManyParticipants
      else if roundCount = 0 \<or> max_rounds < roundCount then Inl InvalidRequest
      else
        (let run = debate_init topic bs roundCount
         in Inr (run, [Debate_update (debate_payload run)])))"

definition debate_resolve ::
  "model_name \<Rightarrow> outcome \<Rightarrow> debate_run \<Rightarrow> debate_run \<times> server_event list" where
  "debate_resolve m out run =
     (if d_cancelled run \<or> d_complete run then (run, [])
      else
        (let cur = last (d_rounds run) in
         case cur m of
           None \<Rightarrow> (run, [])
         | Some r \<Rightarrow>
             if rec_status r \<noteq> St_processing then (run, [])
             else
               (let cur' = cur(m \<mapsto> resolve_record out);
                    rounds' = butlast (d_rounds run) @ [cur'];
                    run1 = run\<lparr>d_rounds := rounds'\<rparr>;
                    ev = Debate_update (debate_payload run1)
                in if \<not> all_terminal (d_backends run) cur' then (run1, [ev])
                   else if length rounds' = d_total run
                   then (run1\<lparr>d_complete := True\<rparr>, [ev, Debate_complete])
                   else
                     (let run2 = run1\<lparr>d_rounds := rounds' @ [fresh_round (d_backends run)],
                                     d_prompts := d_prompts run @
                                       [compose_prompt (d_topic run) (d_backends run) rounds']\<rparr>
                      in (run2, [ev, Debate_update (debate_payload run2)])))))"

definition debate_cancel :: "debate_run \<Rightarrow> debate_run \<times> server_event list" where
  "debate_cancel run =
     (if d_complete run then (run\<lparr>d_cancelled := True\<rparr>, [])
      else (run\<lparr>d_cancelled := True,
                d_rounds := butlast (d_rounds run) @ [map_option cancel_open \<circ> last (d_rounds run)],
                d_complete := True\<rparr>,
            [Debate_complete]))"

datatype debate_input = D_resolve model_name outcome | D_cancel

fun debate_step :: "debate_input \<Rightarrow> debate_run \<Rightarrow> debate_run \<times> server_event list" where
  "debate_step (D_resolve m out) run = debate_resolve m out run"
| "debate_step D_cancel run = debate_cancel run"

fun debate_run_inputs :: "debate_input list \<Rightarrow> debate_run \<Rightarrow> debate_run \<times> server_event list" where
  "debate_run_inputs [] run = (run, [])"
| "debate_run_inputs (i # is) run =
     (let (run1, ev1) = debate_step i run; (run2, ev2) = debate_run_inputs is run1
      in (run2, ev1 @ ev2))"

definition round_wf :: "model_name list \<Rightarrow> round_record \<Rightarrow> bool" where
  "round_wf bs rr \<longleftrightarrow>
     dom rr = set bs \<and> (\<forall>r \<in> ran rr. record_wf r \<and> rec_status r \<noteq> St_pending)"

definition debate_inv :: "debate_run \<Rightarrow> bool" where
  "debate_inv run \<longleftrightarrow>
     distinct (d_backends run) \<and> d_backends run \<noteq> [] \<and>
     d_rounds run \<noteq> [] \<and> length (d_rounds run) \<le> d_total run \<and>
     list_all (round_wf (d_backends run)) (d_rounds run) \<and>
     list_all (all_terminal (d_backends run)) (butlast (d_rounds run)) \<and>
     length (d_prompts run) = length (d_rounds run) \<and>
     (\<forall>i < length (d_rounds run).
        d_prompts run ! i = compose_prompt (d_topic run) (d_backends run) (take i (d_rounds run))) \<and>
     (d_complete run \<longleftrightarrow> all_terminal (d_backends run) (last (d_rounds run))) \<and>
     (d_complete run \<and> \<not> d_cancelled run \<longrightarrow> length (d_rounds run) = d_total run) \<and>
     (d_cancelled run \<longrightarrow> d_complete run)"

definition round_inputs :: "model_name list \<Rightarrow> (model_name \<Rightarrow> outcome) \<Rightarrow> debate_input list" where
  "round_inputs bs f = map (\<lambda>b. D_resolve b (f b)) bs"

text \<open>The round loop of the orchestrator (specification 4.3 steps 3 to 5) run as one
  sequential schedule: while the debate is not complete, the next result delivered is the
  one of the first participant still processing in the current round, with the outcome
  the backend oracle \<open>f\<close> gives for that round and participant. \<open>None\<close> is a loop
  that finds nothing to await although the debate is not complete.\<close>

definition is_open :: "round_record \<Rightarrow> model_name \<Rightarrow> bool" where
  "is_open rr b = (case rr b of Some r \<Rightarrow> rec_status r = St_processing | None \<Rightarrow> False)"

partial_function (option) debate_drive ::
  "(nat \<Rightarrow> model_name \<Rightarrow> outcome) \<Rightarrow> debate_run \<Rightarrow> debate_run option" where
  "debate_drive f run =
     (if d_complete run then Some run
      else
        (case find (is_open (last (d_rounds run))) (d_backends run) of
           None \<Rightarrow> None
         | Some b \<Rightarrow> debate_drive f (fst (debate_resolve b (f (length (d_rounds run)) b) run))))"

definition drive_measure :: "debate_run \<Rightarrow> nat" where
  "drive_measure run =
     (d_total run - length (d_rounds run)) * Suc (length (d_backends run)) +
     length (filter (is_open (last (d_rounds run))) (d_backends run))"

lemma fresh_round_apply [simp]:
  "fresh_round bs b = (if b \<in> set bs then Some processing_record else None)"
  by (simp add: fresh_round_def map_of_map_keys_iff)

lemma round_wf_fresh [simp]: "round_wf bs (fresh_round bs)"
  by (auto simp: round_wf_def ran_def processing_record_def record_wf_def split: if_splits)

lemma all_terminal_fresh [simp]: "all_terminal bs (fresh_round bs) \<longleftrightarrow> bs = []"
  by (cases bs) (simp_all add: all_terminal_def processing_record_def)

lemma take_butlast_less [simp]:
  "i < length xs \<Longrightarrow> take i (butlast xs) = take i xs"
  by (simp add: take_butlast)

lemma take_butlast_snoc:
  "i < length xs \<Longrightarrow> take i (butlast xs @ [y]) = take i xs"
  by (simp add: take_butlast_less)

lemma debate_start_inv:
  "debate_start P R topic bset n = Inr (run, evs) \<Longrightarrow> debate_inv run"
  by (auto simp: debate_start_def debate_init_def debate_inv_def Let_def
           split: if_splits)

lemma round_wf_update:
  "round_wf bs rr \<Longrightarrow> m \<in> set bs \<Longrightarrow> round_wf bs (rr(m \<mapsto> resolve_record out))"
  by (auto simp: round_wf_def ran_def)

lemma round_wf_cancel_open:
  "round_wf bs rr \<Longrightarrow> round_wf bs (map_option cancel_open \<circ> rr)"
  by (auto simp: round_wf_def ran_def dom_map_option_comp)

lemma all_terminal_cancel_open:
  "round_wf bs rr \<Longrightarrow> all_terminal bs (map_option cancel_open \<circ> rr)"
  by (force simp: round_wf_def all_terminal_iff)

lemma debate_resolve_inv:
  assumes inv: "debate_inv run" shows "debate_inv (fst (debate_resolve m out run))"
proof (cases "d_cancelled run \<or> d_complete run \<or> last (d_rounds run) m = None")
  case True
  then show ?thesis using inv by (auto simp: debate_resolve_def)
next
  case False
  then obtain r where r: "last (d_rounds run) m = Some r" and nc: "\<not> d_cancelled run" "\<not> d_complete run"
    by auto
  define bs where "bs = d_backends run"
  define cur' where "cur' = (last (d_rounds run))(m \<mapsto> resolve_record out)"
  define rounds' where "rounds' = butlast (d_rounds run) @ [cur']"
  have ne: "d_rounds run \<noteq> []" using inv by (simp add: debate_inv_def)
  have wf_last: "round_wf bs (last (d_rounds run))"
    using inv ne by (simp add: debate_inv_def list_all_iff bs_def)
  then have m: "m \<in> set bs" using r by (auto simp: round_wf_def)
  have len': "length rounds' = length (d_rounds run)" using ne by (simp add: rounds'_def)
  have take': "\<And>i. i < length (d_rounds run) \<Longrightarrow> take i rounds' = take i (d_rounds run)"
    by (simp add: rounds'_def take_butlast_snoc)
  have wf': "list_all (round_wf bs) rounds'"
    using inv wf_last m by (auto simp: rounds'_def cur'_def debate_inv_def list_all_iff bs_def
                                 dest: in_set_butlastD intro: round_wf_update)
  have prior: "list_all (all_terminal bs) (butlast rounds')"
    using inv by (simp add: rounds'_def debate_inv_def bs_def)
  show ?thesis
  proof (cases "rec_status r \<noteq> St_processing")
    case True
    then show ?thesis using inv r nc by (simp add: debate_resolve_def)
  next
    case proc: False
    have base: "debate_inv (run\<lparr>d_rounds := rounds'\<rparr>) \<longleftrightarrow>
                (d_complete run \<longleftrightarrow> all_terminal bs cur')"
      using inv len' take' wf' prior nc ne
      by (auto simp: debate_inv_def bs_def rounds'_def)
    show ?thesis
    proof (cases "all_terminal bs cur'")
      case False
      then show ?thesis using base r nc proc
        by (simp add: debate_resolve_def Let_def cur'_def rounds'_def bs_def)
    next
      case allt: True
      show ?thesis
      proof (cases "length rounds' = d_total run")
        case True
        then show ?thesis using allt inv len' take' wf' prior nc ne r proc
          by (auto simp: debate_resolve_def Let_def debate_inv_def cur'_def rounds'_def bs_def)
      next
        case False
        have lt: "length rounds' < d_total run" using False inv len' by (simp add: debate_inv_def)
        have bsne: "bs \<noteq> []" using inv by (simp add: debate_inv_def bs_def)
        have allr: "list_all (all_terminal bs) rounds'"
          using prior allt ne by (simp add: rounds'_def)
        have "debate_inv (run\<lparr>d_rounds := rounds' @ [fresh_round bs],
                  d_prompts := d_prompts run @ [compose_prompt (d_topic run) bs rounds']\<rparr>)"
          using inv len' take' wf' allr lt bsne nc
          by (auto simp: debate_inv_def bs_def nth_append less_Suc_eq)
        then show ?thesis using allt False r nc proc
          by (simp add: debate_resolve_def Let_def cur'_def rounds'_def bs_def)
      qed
    qed
  qed
qed

lemma debate_cancel_inv:
  assumes inv: "debate_inv run" shows "debate_inv (fst (debate_cancel run))"
proof (cases "d_complete run")
  case True
  then show ?thesis using inv by (simp add: debate_cancel_def debate_inv_def)
next
  case False
  define rounds' where "rounds' = butlast (d_rounds run) @ [map_option cancel_open \<circ> last (d_rounds run)]"
  have ne: "d_rounds run \<noteq> []" using inv by (simp add: debate_inv_def)
  have wf_last: "round_wf (d_backends run) (last (d_rounds run))"
    using inv ne by (simp add: debate_inv_def list_all_iff)
  have take': "\<And>i. i < length (d_rounds run) \<Longrightarrow> take i rounds' = take i (d_rounds run)"
    by (simp add: rounds'_def take_butlast_snoc)
  have "debate_inv (run\<lparr>d_cancelled := True, d_rounds := rounds', d_complete := True\<rparr>)"
    using inv ne wf_last take'
    by (auto simp: debate_inv_def rounds'_def list_all_iff all_terminal_cancel_open
             dest: in_set_butlastD intro: round_wf_cancel_open)
  then show ?thesis using False by (simp add: debate_cancel_def rounds'_def)
qed

lemma debate_step_inv: "debate_inv run \<Longrightarrow> debate_inv (fst (debate_step i run))"
  by (cases i) (simp_all add: debate_resolve_inv debate_cancel_inv)

lemma debate_run_inputs_Cons:
  "debate_run_inputs (i # is) run =
     (fst (debate_run_inputs is (fst (debate_step i run))),
      snd (debate_step i run) @ snd (debate_run_inputs is (fst (debate_step i run))))"
  by (simp add: split_beta)

declare debate_run_inputs.simps(2) [simp del]

lemma debate_run_inputs_inv:
  "debate_inv run \<Longrightarrow> debate_inv (fst (debate_run_inputs is run))"
  by (induction "is" arbitrary: run) (simp_all add: debate_run_inputs_Cons debate_step_inv)

lemma debate_step_fixed [simp]:
  "d_backends (fst (debate_step i run)) = d_backends run"
  "d_total (fst (debate_step i run)) = d_total run"
  "d_topic (fst (debate_step i run)) = d_topic run"
  by (cases i; auto simp: debate_resolve_def debate_cancel_def Let_def split: option.splits)+

lemma debate_run_fixed [simp]:
  "d_backends (fst (debate_run_inputs is run)) = d_backends run"
  "d_total (fst (debate_run_inputs is run)) = d_total run"
  "d_topic (fst (debate_run_inputs is run)) = d_topic run"
  by (induction "is" arbitrary: run) (simp_all add: debate_run_inputs_Cons)

lemma debate_run_inputs_append:
  "debate_run_inputs (xs @ ys) run =
     (fst (debate_run_inputs ys (fst (debate_run_inputs xs run))),
      snd (debate_run_inputs xs run) @ snd (debate_run_inputs ys (fst (debate_run_inputs xs run))))"
  by (induction xs arbitrary: run) (simp_all add: debate_run_inputs_Cons)

lemma debate_start_run:
  "debate_start P R topic bset n = Inr (run0, ev0) \<Longrightarrow>
     d_backends run0 = first_occurrences bset \<and> d_total run0 = n \<and> d_topic run0 = topic \<and>
     d_rounds run0 = [fresh_round (first_occurrences bset)] \<and> \<not> d_cancelled run0 \<and>
     \<not> d_complete run0 \<and> 0 < n"
  by (auto simp: debate_start_def debate_init_def Let_def split: if_splits)

lemma concat_map_split:
  "b \<in> set bs \<Longrightarrow> \<exists>u v. concat (map f bs) = u @ f b @ v"
  by (metis concat.simps(2) concat_append list.simps(9) map_append split_list)

lemma transcript_contains:
  "i < length rrs \<Longrightarrow> b \<in> set bs \<Longrightarrow>
     \<exists>u v. transcript bs k rrs = u @ statement_line (rrs ! i) b @ v"
proof (induction rrs arbitrary: i k)
  case Nil
  then show ?case by simp
next
  case (Cons rr rrs)
  show ?case
  proof (cases i)
    case 0
    obtain u v where "concat (map (statement_line rr) bs) = u @ statement_line rr b @ v"
      using concat_map_split[OF Cons.prems(2), of "statement_line rr"] by (elim exE)
    then show ?thesis using 0
      by (intro exI[of _ "''Round '' @ nat_to_dec k @ newline @ u"]
                exI[of _ "v @ transcript bs (Suc k) rrs"]) simp
  next
    case (Suc i')
    have i': "i' < length rrs" using Cons.prems(1) Suc by simp
    obtain u v where "transcript bs (Suc k) rrs = u @ statement_line (rrs ! i') b @ v"
      using Cons.IH[OF i' Cons.prems(2), of "Suc k"] by (elim exE)
    then show ?thesis using Suc
      by (intro exI[of _ "''Round '' @ nat_to_dec k @ newline @ concat (map (statement_line rr) bs) @ u"]
                exI[of _ v]) simp
  qed
qed

lemma compose_prompt_contains:
  assumes "i < length prior" "b \<in> set bs" "(prior ! i) b = Some r" "rec_text r = Some t"
  shows "\<exists>u v. compose_prompt topic bs prior = u @ b @ '': '' @ t @ newline @ v"
proof -
  obtain u v where "transcript bs 1 prior = u @ statement_line (prior ! i) b @ v"
    using transcript_contains assms(1,2) by blast
  then show ?thesis using assms(3,4)
    by (intro exI[of _ "topic @ newline @ u"] exI[of _ v]) (simp add: compose_prompt_def statement_line_def)
qed


lemma debate_resolve_open:
  assumes "\<not> d_cancelled run" "\<not> d_complete run" "last (d_rounds run) m = Some r"
    "rec_status r = St_processing"
    "\<not> all_terminal (d_backends run) ((last (d_rounds run))(m \<mapsto> resolve_record out))"
  shows "fst (debate_resolve m out run) =
           run\<lparr>d_rounds := butlast (d_rounds run) @ [(last (d_rounds run))(m \<mapsto> resolve_record out)]\<rparr>"
    and "count_list (snd (debate_resolve m out run)) Debate_complete = 0"
  using assms by (simp_all add: debate_resolve_def Let_def)

lemma debate_resolve_close:
  assumes "\<not> d_cancelled run" "\<not> d_complete run" "last (d_rounds run) m = Some r"
    "rec_status r = St_processing" "d_rounds run \<noteq> []" "d_backends run \<noteq> []"
    "all_terminal (d_backends run) ((last (d_rounds run))(m \<mapsto> resolve_record out))"
  shows "\<not> d_cancelled (fst (debate_resolve m out run))"
    and "d_complete (fst (debate_resolve m out run)) \<longleftrightarrow> length (d_rounds run) = d_total run"
    and "length (d_rounds (fst (debate_resolve m out run))) =
           (if length (d_rounds run) = d_total run then length (d_rounds run)
            else Suc (length (d_rounds run)))"
    and "length (d_rounds run) \<noteq> d_total run \<Longrightarrow>
           last (d_rounds (fst (debate_resolve m out run))) = fresh_round (d_backends run)"
    and "count_list (snd (debate_resolve m out run)) Debate_complete =
           (if length (d_rounds run) = d_total run then 1 else 0)"
  using assms by (simp_all add: debate_resolve_def Let_def) (cases "d_rounds run"; simp)

lemma debate_round_closes:
  assumes "debate_inv run" "\<not> d_cancelled run" "\<not> d_complete run"
    and "distinct todo" "todo \<noteq> []" "set todo \<subseteq> set (d_backends run)"
    and "\<forall>b \<in> set todo. \<exists>r. last (d_rounds run) b = Some r \<and> rec_status r = St_processing"
    and "\<forall>b \<in> set (d_backends run) - set todo.
           \<exists>r. last (d_rounds run) b = Some r \<and> terminal (rec_status r)"
    and "debate_run_inputs (map (\<lambda>b. D_resolve b (f b)) todo) run = (run', evs)"
  shows "\<not> d_cancelled run' \<and> (d_complete run' \<longleftrightarrow> length (d_rounds run) = d_total run) \<and>
         length (d_rounds run') =
           (if length (d_rounds run) = d_total run then length (d_rounds run)
            else Suc (length (d_rounds run))) \<and>
         (length (d_rounds run) \<noteq> d_total run \<longrightarrow> last (d_rounds run') = fresh_round (d_backends run)) \<and>
         count_list evs Debate_complete = (if length (d_rounds run) = d_total run then 1 else 0)"
  using assms
proof (induction todo arbitrary: run run' evs)
  case Nil
  then show ?case by simp
next
  case (Cons b todo)
  obtain r where r: "last (d_rounds run) b = Some r" "rec_status r = St_processing"
    using Cons.prems(7) by auto
  have ne: "d_rounds run \<noteq> []" "d_backends run \<noteq> []"
    using Cons.prems(1) by (simp_all add: debate_inv_def)
  define cur' where "cur' = (last (d_rounds run))(b \<mapsto> resolve_record (f b))"
  show ?case
  proof (cases "todo = []")
    case True
    have "all_terminal (d_backends run) cur'"
      using Cons.prems(8) True by (force simp: all_terminal_iff cur'_def)
    then show ?thesis
      using Cons.prems(2,3,9) True r ne debate_resolve_close[of run b r "f b"]
      by (auto simp: debate_run_inputs_Cons cur'_def)
  next
    case False
    then obtain c where c: "c \<in> set todo" by (cases todo) auto
    with Cons.prems(4) have cb: "c \<noteq> b" by auto
    have nt: "\<not> all_terminal (d_backends run) cur'"
      using Cons.prems(6,7) c cb by (fastforce simp: all_terminal_iff cur'_def)
    define run1 where "run1 = fst (debate_resolve b (f b) run)"
    have run1: "run1 = run\<lparr>d_rounds := butlast (d_rounds run) @ [cur']\<rparr>"
      using debate_resolve_open(1)[OF Cons.prems(2,3) r] nt by (simp add: run1_def cur'_def)
    have last1: "last (d_rounds run1) = cur'" by (simp add: run1)
    have inv1: "debate_inv run1" using debate_resolve_inv[OF Cons.prems(1)] by (simp add: run1_def)
    define evs2 where "evs2 = snd (debate_run_inputs (map (\<lambda>b. D_resolve b (f b)) todo) run1)"
    have rest: "debate_run_inputs (map (\<lambda>b. D_resolve b (f b)) todo) run1 = (run', evs2)"
      and evs: "evs = snd (debate_resolve b (f b) run) @ evs2"
      using Cons.prems(9) by (auto simp: debate_run_inputs_Cons run1_def evs2_def)
    have IH: "\<not> d_cancelled run' \<and> (d_complete run' \<longleftrightarrow> length (d_rounds run1) = d_total run1) \<and>
         length (d_rounds run') =
           (if length (d_rounds run1) = d_total run1 then length (d_rounds run1)
            else Suc (length (d_rounds run1))) \<and>
         (length (d_rounds run1) \<noteq> d_total run1 \<longrightarrow> last (d_rounds run') = fresh_round (d_backends run1)) \<and>
         count_list evs2 Debate_complete = (if length (d_rounds run1) = d_total run1 then 1 else 0)"
    proof (rule Cons.IH[OF inv1 _ _ _ False _ _ _ rest])
      show "\<not> d_cancelled run1" "\<not> d_complete run1" using Cons.prems(2,3) by (simp_all add: run1)
      show "distinct todo" using Cons.prems(4) by simp
      show "set todo \<subseteq> set (d_backends run1)" using Cons.prems(6) by (simp add: run1)
      show "\<forall>b\<in>set todo. \<exists>r. last (d_rounds run1) b = Some r \<and> rec_status r = St_processing"
        using Cons.prems(4,7) by (auto simp: last1 cur'_def)
      show "\<forall>c\<in>set (d_backends run1) - set todo.
              \<exists>r. last (d_rounds run1) c = Some r \<and> terminal (rec_status r)"
        using Cons.prems(8) by (auto simp: last1 cur'_def run1)
    qed
    have "length (d_rounds run1) = length (d_rounds run)" using ne by (simp add: run1)
    then show ?thesis
      using IH evs debate_resolve_open(2)[OF Cons.prems(2,3) r] nt
      by (simp add: run1 cur'_def)
  qed
qed


lemma debate_rounds_complete:
  assumes "debate_inv run" "\<not> d_cancelled run" "\<not> d_complete run"
    and "last (d_rounds run) = fresh_round (d_backends run)"
    and "length (d_rounds run) + length fs = Suc (d_total run)" "fs \<noteq> []"
    and "debate_run_inputs (concat (map (round_inputs (d_backends run)) fs)) run = (run', evs)"
  shows "d_complete run' \<and> \<not> d_cancelled run' \<and> length (d_rounds run') = d_total run \<and>
         count_list evs Debate_complete = 1"
  using assms
proof (induction fs arbitrary: run run' evs)
  case Nil
  then show ?case by simp
next
  case (Cons g fs)
  define bs where "bs = d_backends run"
  define run1 where "run1 = fst (debate_run_inputs (round_inputs bs g) run)"
  define evs1 where "evs1 = snd (debate_run_inputs (round_inputs bs g) run)"
  have bs: "distinct bs" "bs \<noteq> []" using Cons.prems(1) by (simp_all add: debate_inv_def bs_def)
  have round: "\<not> d_cancelled run1 \<and> (d_complete run1 \<longleftrightarrow> length (d_rounds run) = d_total run) \<and>
         length (d_rounds run1) =
           (if length (d_rounds run) = d_total run then length (d_rounds run)
            else Suc (length (d_rounds run))) \<and>
         (length (d_rounds run) \<noteq> d_total run \<longrightarrow> last (d_rounds run1) = fresh_round (d_backends run)) \<and>
         count_list evs1 Debate_complete = (if length (d_rounds run) = d_total run then 1 else 0)"
  proof (rule debate_round_closes[OF Cons.prems(1-3) bs(1,2)])
    show "set bs \<subseteq> set (d_backends run)" by (simp add: bs_def)
    show "\<forall>b \<in> set bs. \<exists>r. last (d_rounds run) b = Some r \<and> rec_status r = St_processing"
      using Cons.prems(4) by (simp add: bs_def processing_record_def)
    show "\<forall>b \<in> set (d_backends run) - set bs.
            \<exists>r. last (d_rounds run) b = Some r \<and> terminal (rec_status r)"
      by (simp add: bs_def)
    show "debate_run_inputs (map (\<lambda>b. D_resolve b (g b)) bs) run = (run1, evs1)"
      by (simp add: run1_def evs1_def round_inputs_def)
  qed
  have split: "run' = fst (debate_run_inputs (concat (map (round_inputs bs) fs)) run1)"
    "evs = evs1 @ snd (debate_run_inputs (concat (map (round_inputs bs) fs)) run1)"
    using Cons.prems(7) by (auto simp: debate_run_inputs_append run1_def evs1_def bs_def)
  show ?case
  proof (cases "fs = []")
    case True
    then show ?thesis using round split Cons.prems(5) by simp
  next
    case False
    have lt: "length (d_rounds run) \<noteq> d_total run" using Cons.prems(5) False by (cases fs) auto
    have inv1: "debate_inv run1" using debate_run_inputs_inv[OF Cons.prems(1)] by (simp add: run1_def)
    have fix1: "d_backends run1 = bs" "d_total run1 = d_total run" by (simp_all add: run1_def bs_def)
    have "d_complete run' \<and> \<not> d_cancelled run' \<and> length (d_rounds run') = d_total run1 \<and>
          count_list (snd (debate_run_inputs (concat (map (round_inputs bs) fs)) run1)) Debate_complete = 1"
    proof (rule Cons.IH[OF inv1])
      show "\<not> d_cancelled run1" "\<not> d_complete run1" using round lt by simp_all
      show "last (d_rounds run1) = fresh_round (d_backends run1)"
        using round lt fix1 by (simp add: bs_def)
      show "length (d_rounds run1) + length fs = Suc (d_total run1)"
        using round lt fix1 Cons.prems(5) by simp
      show "fs \<noteq> []" by (rule False)
      show "debate_run_inputs (concat (map (round_inputs (d_backends run1)) fs)) run1 =
              (run', snd (debate_run_inputs (concat (map (round_inputs bs) fs)) run1))"
        using split(1) fix1 by simp
    qed
    then show ?thesis using split(2) round lt fix1 by simp
  qed
qed


lemma debate_start_reaches_inv:
  "debate_start P R topic bset n = Inr (run0, ev0) \<Longrightarrow>
     debate_inv (fst (debate_run_inputs is run0)) \<and>
     d_backends (fst (debate_run_inputs is run0)) = first_occurrences bset \<and>
     d_total (fst (debate_run_inputs is run0)) = n \<and>
     d_topic (fst (debate_run_inputs is run0)) = topic"
  using debate_run_inputs_inv[OF debate_start_inv] debate_start_run by simp

lemma debate_step_closed:
  assumes "d_cancelled run" "d_complete run" shows "debate_step i run = (run, [])"
proof (cases i)
  case D_cancel
  have "run\<lparr>d_cancelled := True\<rparr> = run" using assms(1) by (cases run) simp
  then show ?thesis using D_cancel assms(2) by (simp add: debate_cancel_def)
qed (simp add: debate_resolve_def assms)

lemma debate_run_closed:
  "d_cancelled run \<Longrightarrow> d_complete run \<Longrightarrow> debate_run_inputs is run = (run, [])"
  by (induction "is") (simp_all add: debate_run_inputs_Cons debate_step_closed)

lemma debate_start_accepts:
  "backendSet \<noteq> [] \<Longrightarrow> length (first_occurrences backendSet) \<le> P \<Longrightarrow> 0 < n \<Longrightarrow> n \<le> R \<Longrightarrow>
   debate_start P R topic backendSet n =
     Inr (debate_init topic (first_occurrences backendSet) n,
          [Debate_update (debate_payload (debate_init topic (first_occurrences backendSet) n))])"
  by (simp add: debate_start_def Let_def)

lemmas debate_eval_simps = debate_init_def debate_run_inputs_Cons debate_resolve_def debate_cancel_def
  all_terminal_def processing_record_def first_occurrences_def Let_def

text \<open>C19. The round barrier: in every run reached from an accepted start, at least one and
  at most the requested number of rounds have been dispatched, every round record has a
  record for exactly the participants, and every round before the current one has all its
  records terminal, so a round is dispatched only once the previous one is closed.\<close>

theorem debate_round_barrier:
  assumes "debate_start P R topic bset n = Inr (run0, ev0)"
    and "run = fst (debate_run_inputs is run0)"
  shows "0 < length (d_rounds run) \<and> length (d_rounds run) \<le> n \<and>
         (\<forall>i. Suc i < length (d_rounds run) \<longrightarrow>
                all_terminal (first_occurrences bset) (d_rounds run ! i)) \<and>
         (\<forall>rr \<in> set (d_rounds run). dom rr = set (first_occurrences bset))"
proof -
  have inv: "debate_inv run" and fx: "d_backends run = first_occurrences bset" "d_total run = n"
    using debate_start_reaches_inv[OF assms(1)] assms(2) by simp_all
  have "all_terminal (first_occurrences bset) (d_rounds run ! i)" if "Suc i < length (d_rounds run)" for i
  proof -
    have "butlast (d_rounds run) ! i \<in> set (butlast (d_rounds run))" using that by simp
    then show ?thesis using inv fx that by (simp add: debate_inv_def list_all_iff nth_butlast)
  qed
  then show ?thesis using inv fx by (auto simp: debate_inv_def list_all_iff round_wf_def)
qed

text \<open>C20. Prompt composition: the prompt of round j is the composition of the topic with
  the transcript of exactly the rounds before j, and every statement a participant made in
  an earlier round appears in it verbatim, as the line "name: statement".\<close>

theorem debate_prompt_transcript:
  assumes "debate_start P R topic bset n = Inr (run0, ev0)"
    and "run = fst (debate_run_inputs is run0)"
    and "i < j" "j < length (d_rounds run)" "(d_rounds run ! i) b = Some r" "rec_text r = Some t"
  shows "d_prompts run ! j = compose_prompt topic (first_occurrences bset) (take j (d_rounds run)) \<and>
         (\<exists>u v. d_prompts run ! j = u @ b @ '': '' @ t @ newline @ v)"
proof -
  have inv: "debate_inv run" and fx: "d_backends run = first_occurrences bset" "d_topic run = topic"
    using debate_start_reaches_inv[OF assms(1)] assms(2) by simp_all
  have pj: "d_prompts run ! j = compose_prompt topic (first_occurrences bset) (take j (d_rounds run))"
    using inv fx assms(4) by (simp add: debate_inv_def)
  have "round_wf (first_occurrences bset) (d_rounds run ! i)"
    using inv fx assms(3,4) by (simp add: debate_inv_def list_all_iff)
  then have b: "b \<in> set (first_occurrences bset)" using assms(5) by (auto simp: round_wf_def)
  have "\<exists>u v. compose_prompt topic (first_occurrences bset) (take j (d_rounds run)) =
                u @ b @ '': '' @ t @ newline @ v"
    by (rule compose_prompt_contains[of i _ _ _ r]) (use assms(3-6) b in simp_all)
  then show ?thesis using pj by simp
qed

text \<open>C21. Liveness and exact round count: if in every round every participant's reply
  arrives (with any outcome), a debate started for n rounds completes, not cancelled, with
  exactly n round records and exactly one debate_complete event.\<close>

theorem debate_completes:
  assumes "debate_start P R topic bset n = Inr (run0, ev0)"
    and "debate_run_inputs (concat (map (\<lambda>k. round_inputs (first_occurrences bset) (f k)) [0..<n])) run0
           = (run, evs)"
  shows "d_complete run \<and> \<not> d_cancelled run \<and> length (d_rounds run) = n \<and>
         count_list evs Debate_complete = 1"
proof -
  have st: "d_backends run0 = first_occurrences bset" "d_total run0 = n"
    "d_rounds run0 = [fresh_round (first_occurrences bset)]" "\<not> d_cancelled run0" "\<not> d_complete run0" "0 < n"
    using debate_start_run[OF assms(1)] by simp_all
  have "d_complete run \<and> \<not> d_cancelled run \<and> length (d_rounds run) = d_total run0 \<and>
        count_list evs Debate_complete = 1"
  proof (rule debate_rounds_complete[OF debate_start_inv[OF assms(1)] st(4,5)])
    show "last (d_rounds run0) = fresh_round (d_backends run0)" using st by simp
    show "length (d_rounds run0) + length (map f [0..<n]) = Suc (d_total run0)" using st by simp
    show "map f [0..<n] \<noteq> []" using st by simp
    show "debate_run_inputs (concat (map (round_inputs (d_backends run0)) (map f [0..<n]))) run0 = (run, evs)"
      using assms(2) st(1) by (simp add: comp_def)
  qed
  then show ?thesis using st by simp
qed

text \<open>C22. Sticky cancellation: cancelling emits debate_complete exactly when the debate was
  still open, leaves the closed rounds and the dispatched prompts as they were, and afterwards no input changes the run or emits
  an event, so no further round is ever dispatched.\<close>

theorem debate_cancel_final:
  "snd (debate_cancel run) = (if d_complete run then [] else [Debate_complete]) \<and>
   butlast (d_rounds (fst (debate_cancel run))) = butlast (d_rounds run) \<and>
   d_prompts (fst (debate_cancel run)) = d_prompts run \<and>
   debate_run_inputs is (fst (debate_cancel run)) = (fst (debate_cancel run), [])"
proof -
  have "d_cancelled (fst (debate_cancel run))" "d_complete (fst (debate_cancel run))"
    by (simp_all add: debate_cancel_def)
  then have "debate_run_inputs is (fst (debate_cancel run)) = (fst (debate_cancel run), [])"
    by (rule debate_run_closed)
  then show ?thesis by (cases "d_rounds run") (simp_all add: debate_cancel_def)
qed




theorem debate_round_barrier_witness:
  "all_terminal [''a'', ''b'']
     (d_rounds (fst (debate_run_inputs [D_resolve ''a'' (Outcome_ok ''x'' 1),
                                        D_resolve ''b'' (Outcome_failed ''e'')]
                      (debate_init ''T'' [''a'', ''b''] 2))) ! 0)"
proof -
  have st: "debate_start 6 10 ''T'' [''a'', ''b''] 2 =
              Inr (debate_init ''T'' [''a'', ''b''] 2,
                   [Debate_update (debate_payload (debate_init ''T'' [''a'', ''b''] 2))])"
    by (simp add: debate_start_accepts first_occurrences_def)
  let ?run = "fst (debate_run_inputs [D_resolve ''a'' (Outcome_ok ''x'' 1),
                                      D_resolve ''b'' (Outcome_failed ''e'')]
                    (debate_init ''T'' [''a'', ''b''] 2))"
  have "Suc 0 < length (d_rounds ?run)" by (simp add: debate_eval_simps)
  with debate_round_barrier[OF st refl]
  have "all_terminal (first_occurrences [''a'', ''b'']) (d_rounds ?run ! 0)" by blast
  then show ?thesis by (simp add: first_occurrences_def)
qed

theorem debate_prompt_transcript_witness:
  "\<exists>u v. d_prompts (fst (debate_run_inputs [D_resolve ''a'' (Outcome_ok ''x'' 1),
                                              D_resolve ''b'' (Outcome_failed ''e'')]
                          (debate_init ''T'' [''a'', ''b''] 2))) ! 1
          = u @ ''a'' @ '': '' @ ''x'' @ newline @ v"
proof -
  have st: "debate_start 6 10 ''T'' [''a'', ''b''] 2 =
              Inr (debate_init ''T'' [''a'', ''b''] 2,
                   [Debate_update (debate_payload (debate_init ''T'' [''a'', ''b''] 2))])"
    by (simp add: debate_start_accepts first_occurrences_def)
  let ?run = "fst (debate_run_inputs [D_resolve ''a'' (Outcome_ok ''x'' 1),
                                      D_resolve ''b'' (Outcome_failed ''e'')]
                    (debate_init ''T'' [''a'', ''b''] 2))"
  have len: "1 < length (d_rounds ?run)"
    and rec: "(d_rounds ?run ! 0) ''a'' = Some (resolve_record (Outcome_ok ''x'' 1))"
    by (simp_all add: debate_eval_simps)
  have "d_prompts ?run ! 1 = compose_prompt ''T'' (first_occurrences [''a'', ''b'']) (take 1 (d_rounds ?run)) \<and>
        (\<exists>u v. d_prompts ?run ! 1 = u @ ''a'' @ '': '' @ ''x'' @ newline @ v)"
    by (rule debate_prompt_transcript[OF st refl _ len rec]) simp_all
  then show ?thesis by (rule conjunct2)
qed

theorem debate_completes_witness:
  "d_complete (fst (debate_run_inputs [D_resolve ''b'' (Outcome_ok ''1'' 1), D_resolve ''a'' (Outcome_failed ''e''),
                                       D_resolve ''b'' (Outcome_ok ''2'' 1), D_resolve ''a'' Outcome_cancelled]
                    (debate_init ''T'' [''b'', ''a''] 2))) \<and>
   length (d_rounds (fst (debate_run_inputs [D_resolve ''b'' (Outcome_ok ''1'' 1), D_resolve ''a'' (Outcome_failed ''e''),
                                       D_resolve ''b'' (Outcome_ok ''2'' 1), D_resolve ''a'' Outcome_cancelled]
                    (debate_init ''T'' [''b'', ''a''] 2)))) = 2"
proof -
  have st: "debate_start 6 10 ''T'' [''b'', ''a'', ''b''] 2 =
              Inr (debate_init ''T'' [''b'', ''a''] 2,
                   [Debate_update (debate_payload (debate_init ''T'' [''b'', ''a''] 2))])"
    by (simp add: debate_start_accepts first_occurrences_def)
  define f :: "nat \<Rightarrow> model_name \<Rightarrow> outcome" where
    "f = (\<lambda>k b. if k = 0 then (if b = ''b'' then Outcome_ok ''1'' 1 else Outcome_failed ''e'')
                else (if b = ''b'' then Outcome_ok ''2'' 1 else Outcome_cancelled))"
  have eq: "concat (map (\<lambda>k. round_inputs (first_occurrences [''b'', ''a'', ''b'']) (f k)) [0..<2]) =
            [D_resolve ''b'' (Outcome_ok ''1'' 1), D_resolve ''a'' (Outcome_failed ''e''),
             D_resolve ''b'' (Outcome_ok ''2'' 1), D_resolve ''a'' Outcome_cancelled]"
    by (simp add: f_def round_inputs_def first_occurrences_def upt_rec)
  from debate_completes[OF st prod.collapse[symmetric], of f] show ?thesis
    by (simp add: eq)
qed

theorem debate_cancel_final_witness:
  "snd (debate_cancel (debate_init ''T'' [''a''] 1)) = [Debate_complete] \<and>
   debate_run_inputs [D_resolve ''a'' (Outcome_ok ''late'' 1)] (fst (debate_cancel (debate_init ''T'' [''a''] 1)))
     = (fst (debate_cancel (debate_init ''T'' [''a''] 1)), [])"
  using debate_cancel_final[of "debate_init ''T'' [''a''] 1" "[D_resolve ''a'' (Outcome_ok ''late'' 1)]"]
  by (simp add: debate_init_def)

section \<open>Termination of the round loop\<close>

lemma length_filter_le_mono:
  "\<forall>x. Q x \<longrightarrow> P x \<Longrightarrow> length (filter Q xs) \<le> length (filter P xs)"
  by (induction xs) auto

lemma resolve_not_processing [simp]: "rec_status (resolve_record out) \<noteq> St_processing"
  by (cases out) (simp_all add: cancelled_record_def)

lemma length_filter_less_mono:
  "\<forall>x. Q x \<longrightarrow> P x \<Longrightarrow> b \<in> set xs \<Longrightarrow> P b \<Longrightarrow> \<not> Q b \<Longrightarrow>
   length (filter Q xs) < length (filter P xs)"
proof (induction xs)
  case (Cons x xs)
  then show ?case
    using length_filter_le_mono[of Q P xs] by (cases "b = x") (auto simp: le_imp_less_Suc)
qed simp

lemma debate_open_exists:
  assumes "debate_inv run" "\<not> d_complete run"
  obtains b r where "find (is_open (last (d_rounds run))) (d_backends run) = Some b"
    "last (d_rounds run) b = Some r" "rec_status r = St_processing" "b \<in> set (d_backends run)"
proof -
  have ne: "d_rounds run \<noteq> []" using assms(1) by (simp add: debate_inv_def)
  have wf: "round_wf (d_backends run) (last (d_rounds run))"
    using assms(1) ne by (simp add: debate_inv_def list_all_iff)
  have "\<not> all_terminal (d_backends run) (last (d_rounds run))"
    using assms by (simp add: debate_inv_def)
  then obtain c where c: "c \<in> set (d_backends run)"
    and nt: "\<not> (\<exists>r. last (d_rounds run) c = Some r \<and> terminal (rec_status r))"
    by (auto simp: all_terminal_iff)
  have "is_open (last (d_rounds run)) c"
    using wf c nt by (cases "last (d_rounds run) c")
      (auto simp: round_wf_def is_open_def ran_def terminal_def, metis rstatus.exhaust)
  then obtain b where fb: "find (is_open (last (d_rounds run))) (d_backends run) = Some b"
    using c by (metis find_None_iff option.exhaust)
  then have "is_open (last (d_rounds run)) b" "b \<in> set (d_backends run)"
    by (auto simp: find_Some_iff)
  then show ?thesis using that fb by (auto simp: is_open_def split: option.splits)
qed

lemma debate_drive_returns:
  "debate_inv run \<Longrightarrow>
   \<exists>r. debate_drive f run = Some r \<and> d_complete r \<and> debate_inv r \<and>
       d_total r = d_total run \<and> (\<not> d_cancelled run \<longrightarrow> \<not> d_cancelled r)"
proof (induction "drive_measure run" arbitrary: run rule: less_induct)
  case less
  show ?case
  proof (cases "d_complete run")
    case True
    then show ?thesis using less.prems by (simp add: debate_drive.simps)
  next
    case nc: False
    have nca: "\<not> d_cancelled run" using less.prems nc by (simp add: debate_inv_def)
    obtain b r where fb: "find (is_open (last (d_rounds run))) (d_backends run) = Some b"
      and r: "last (d_rounds run) b = Some r" "rec_status r = St_processing"
      and b: "b \<in> set (d_backends run)"
      using debate_open_exists[OF less.prems nc] by blast
    define out where "out = f (length (d_rounds run)) b"
    define run' where "run' = fst (debate_resolve b out run)"
    have drive: "debate_drive f run = debate_drive f run'"
      using nc fb by (simp add: debate_drive.simps run'_def out_def)
    have inv': "debate_inv run'" using debate_resolve_inv[OF less.prems] by (simp add: run'_def)
    have fx: "d_total run' = d_total run" "d_backends run' = d_backends run"
      using debate_step_fixed[of "D_resolve b out" run] by (simp_all add: run'_def)
    have ne: "d_rounds run \<noteq> []" "d_backends run \<noteq> []" "length (d_rounds run) \<le> d_total run"
      using less.prems by (simp_all add: debate_inv_def)
    define cur' where "cur' = (last (d_rounds run))(b \<mapsto> resolve_record out)"
    show ?thesis
    proof (cases "all_terminal (d_backends run) cur'")
      case False
      have run'_eq: "run' = run\<lparr>d_rounds := butlast (d_rounds run) @ [cur']\<rparr>"
        using debate_resolve_open(1)[OF nca nc r] False by (simp add: run'_def cur'_def)
      have "length (filter (is_open cur') (d_backends run)) <
            length (filter (is_open (last (d_rounds run))) (d_backends run))"
        by (rule length_filter_less_mono[OF _ b])
           (use r in \<open>auto simp: is_open_def cur'_def split: option.splits\<close>)
      then have "drive_measure run' < drive_measure run"
        using ne by (simp add: drive_measure_def run'_eq)
      moreover have "\<not> d_cancelled run'" using nca by (simp add: run'_eq)
      ultimately show ?thesis using less.hyps[OF _ inv'] drive fx by auto
    next
      case allt: True
      note close = debate_resolve_close[OF nca nc r ne(1,2), of out, folded cur'_def, OF allt]
      show ?thesis
      proof (cases "length (d_rounds run) = d_total run")
        case True
        then have "d_complete run'" "\<not> d_cancelled run'" using close by (simp_all add: run'_def)
        then show ?thesis using drive inv' fx by (simp add: debate_drive.simps)
      next
        case False
        have lt: "length (d_rounds run) < d_total run" using False ne(3) by simp
        have len': "length (d_rounds run') = Suc (length (d_rounds run))"
          and last': "last (d_rounds run') = fresh_round (d_backends run)"
          using close False by (simp_all add: run'_def)
        have "length (filter (is_open (fresh_round (d_backends run))) (d_backends run)) = length (d_backends run)"
          by (simp add: is_open_def processing_record_def filter_id_conv)
        moreover have "0 < length (filter (is_open (last (d_rounds run))) (d_backends run))"
        proof -
          have "b \<in> set (filter (is_open (last (d_rounds run))) (d_backends run))"
            using b r by (simp add: is_open_def)
          then show ?thesis by (rule length_pos_if_in_set)
        qed
        ultimately have "drive_measure run' < drive_measure run"
          using lt len' last' fx
          by (simp add: drive_measure_def Suc_diff_Suc[symmetric])
        then show ?thesis using less.hyps[OF _ inv'] drive close(1) fx by (auto simp: run'_def)
      qed
    qed
  qed
qed


text \<open>C33. Termination of the round loop: for every backend oracle (any outcome per round and
  participant, failures and per-invocation cancellations included), the orchestrator's loop
  on a started debate returns: it never waits on a round with nothing open and never
  livelocks. It ends with the debate complete, not cancelled, after exactly the requested
  number of rounds. The measure is the rounds still to dispatch, weighted by the number of
  participants plus one, plus the invocations still open in the current round.\<close>

theorem debate_drive_terminates:
  assumes "debate_start P R topic bset n = Inr (run0, ev0)"
  shows "\<exists>r. debate_drive f run0 = Some r \<and> d_complete r \<and> \<not> d_cancelled r \<and> length (d_rounds r) = n"
proof -
  have st: "\<not> d_cancelled run0" "d_total run0 = n"
    using debate_start_run[OF assms] by simp_all
  obtain r where r: "debate_drive f run0 = Some r" "d_complete r" "debate_inv r" "d_total r = n"
    "\<not> d_cancelled r"
    using debate_drive_returns[OF debate_start_inv[OF assms], of f] st by auto
  then have "length (d_rounds r) = n" by (simp add: debate_inv_def)
  with r show ?thesis by blast
qed

theorem debate_drive_terminates_witness:
  "\<exists>r. debate_drive (\<lambda>k b. if b = ''a'' then Outcome_failed ''down'' else Outcome_ok ''s'' 1)
          (debate_init ''T'' [''a'', ''b''] 3) = Some r \<and>
       d_complete r \<and> \<not> d_cancelled r \<and> length (d_rounds r) = 3"
proof -
  have st: "debate_start 6 10 ''T'' [''a'', ''b''] 3 =
              Inr (debate_init ''T'' [''a'', ''b''] 3, [Debate_update (debate_payload (debate_init ''T'' [''a'', ''b''] 3))])"
    by (simp add: debate_start_accepts first_occurrences_def)
  show ?thesis by (rule debate_drive_terminates[OF st])
qed

end
