(* ===== verification/Session.thy ===== *)
theory Session
  imports Orchestrator_Debate
begin

text \<open>
  The backend's \<open>SessionRegistry\<close> (specification sections 2, 3, 4.4 and 5), modelled from
  the specification because the backend is not part of the source. The registry maps a
  session id to one session: its monotonic cancellation flag, the generation of its run
  (incremented whenever a new run supersedes an old one, so that results of in-flight
  work of a superseded run are recognised as stale), and exactly one run, a query run of
  \<open>Orchestrator_Query\<close> or a debate run of \<open>Orchestrator_Debate\<close>. \<open>server_step\<close> applies
  one request under the per-session exclusion of section 5: a start is rejected with
  \<open>SessionBusy\<close> while the session's run is active, a cancel and a backend result are
  routed to the session's run. The policy values of section 4.3 are a \<open>server_config\<close>.
\<close>

datatype active_run = Query_run query_run | Debate_run debate_run

record session =
  sess_cancelled :: bool
  sess_gen :: nat
  sess_run :: active_run

type_synonym registry = "string \<rightharpoonup> session"

record server_config =
  max_participants :: nat
  max_rounds :: nat

datatype server_request =
    Req_query string "model_name list"
  | Req_debate string string "model_name list" nat
  | Req_cancel string
  | Req_result string nat model_name outcome

fun run_active :: "active_run \<Rightarrow> bool" where
  "run_active (Query_run r) = (\<not> q_complete r)"
| "run_active (Debate_run d) = (\<not> d_complete d)"

fun run_cancel :: "active_run \<Rightarrow> active_run \<times> server_event list" where
  "run_cancel (Query_run r) = apfst Query_run (query_cancel r)"
| "run_cancel (Debate_run d) = apfst Debate_run (debate_cancel d)"

fun run_resolve :: "model_name \<Rightarrow> outcome \<Rightarrow> active_run \<Rightarrow> active_run \<times> server_event list" where
  "run_resolve m out (Query_run r) = apfst Query_run (query_resolve m out r)"
| "run_resolve m out (Debate_run d) = apfst Debate_run (debate_resolve m out d)"

definition session_busy :: "registry \<Rightarrow> string \<Rightarrow> bool" where
  "session_busy reg sid = (case reg sid of None \<Rightarrow> False | Some se \<Rightarrow> run_active (sess_run se))"

definition next_gen :: "registry \<Rightarrow> string \<Rightarrow> nat" where
  "next_gen reg sid = (case reg sid of None \<Rightarrow> 0 | Some se \<Rightarrow> Suc (sess_gen se))"

definition registry_start ::
  "registry \<Rightarrow> string \<Rightarrow> start_error + active_run \<times> server_event list \<Rightarrow>
   start_error + registry \<times> server_event list" where
  "registry_start reg sid started =
     (if session_busy reg sid then Inl SessionBusy
      else
        (case started of
           Inl e \<Rightarrow> Inl e
         | Inr (r, evs) \<Rightarrow>
             Inr (reg(sid \<mapsto> \<lparr>sess_cancelled = False, sess_gen = next_gen reg sid, sess_run = r\<rparr>), evs)))"

fun server_step ::
  "server_config \<Rightarrow> server_request \<Rightarrow> registry \<Rightarrow> start_error + registry \<times> server_event list" where
  "server_step cfg (Req_query sid bs) reg =
     registry_start reg sid (map_sum id (apfst Query_run) (query_start bs))"
| "server_step cfg (Req_debate sid topic bs n) reg =
     registry_start reg sid
       (map_sum id (apfst Debate_run) (debate_start (max_participants cfg) (max_rounds cfg) topic bs n))"
| "server_step cfg (Req_cancel sid) reg =
     (case reg sid of
        None \<Rightarrow> Inr (reg, [])
      | Some se \<Rightarrow>
          (let (r', evs) = run_cancel (sess_run se)
           in Inr (reg(sid \<mapsto> se\<lparr>sess_cancelled := True, sess_run := r'\<rparr>), evs)))"
| "server_step cfg (Req_result sid g m out) reg =
     (case reg sid of
        None \<Rightarrow> Inr (reg, [])
      | Some se \<Rightarrow>
          if g \<noteq> sess_gen se then Inr (reg, [])
          else
            (let (r', evs) = run_resolve m out (sess_run se)
             in Inr (reg(sid \<mapsto> se\<lparr>sess_run := r'\<rparr>), evs)))"

text \<open>A rejected request leaves the registry as it was; the caller sees the error.\<close>

definition server_apply :: "server_config \<Rightarrow> server_request \<Rightarrow> registry \<Rightarrow> registry" where
  "server_apply cfg req reg = (case server_step cfg req reg of Inl e \<Rightarrow> reg | Inr (reg', evs) \<Rightarrow> reg')"

inductive server_reachable :: "server_config \<Rightarrow> registry \<Rightarrow> bool" for cfg where
  empty: "server_reachable cfg Map.empty"
| step: "server_reachable cfg reg \<Longrightarrow> server_reachable cfg (server_apply cfg req reg)"

fun run_inv :: "active_run \<Rightarrow> bool" where
  "run_inv (Query_run r) = query_inv r"
| "run_inv (Debate_run d) = debate_inv d"

fun run_cancelled :: "active_run \<Rightarrow> bool" where
  "run_cancelled (Query_run r) = q_cancelled r"
| "run_cancelled (Debate_run d) = d_cancelled d"

definition session_inv :: "session \<Rightarrow> bool" where
  "session_inv se \<longleftrightarrow> run_inv (sess_run se) \<and> (sess_cancelled se \<longrightarrow> run_cancelled (sess_run se))"

definition demo_config :: server_config where
  "demo_config = \<lparr>max_participants = 6, max_rounds = 10\<rparr>"

section \<open>The session invariant\<close>

lemma run_inv_cancel: "run_inv r \<Longrightarrow> run_inv (fst (run_cancel r))"
  by (cases r) (simp_all add: query_cancel_inv debate_cancel_inv)

lemma run_inv_resolve: "run_inv r \<Longrightarrow> run_inv (fst (run_resolve m out r))"
  by (cases r) (simp_all add: query_resolve_inv debate_resolve_inv)

lemma run_cancelled_cancel [simp]: "run_cancelled (fst (run_cancel r))"
  by (cases r) (simp_all add: query_cancel_def debate_cancel_def)

lemma run_cancelled_resolve:
  "run_cancelled r \<Longrightarrow> run_cancelled (fst (run_resolve m out r))"
  by (cases r) (auto simp: query_resolve_def debate_resolve_def Let_def split: option.splits)

lemma run_inv_cancelled_inactive:
  "run_inv r \<Longrightarrow> run_cancelled r \<Longrightarrow> \<not> run_active r"
  by (cases r) (auto simp: query_inv_def debate_inv_def)

lemma session_inv_update:
  "\<forall>sid se. reg sid = Some se \<longrightarrow> session_inv se \<Longrightarrow> session_inv se' \<Longrightarrow>
   (reg(sid' \<mapsto> se')) sid'' = Some se'' \<Longrightarrow> session_inv se''"
  by (auto split: if_splits)

lemma registry_start_inv:
  assumes "\<forall>sid se. reg sid = Some se \<longrightarrow> session_inv se"
    and "\<forall>r evs. started = Inr (r, evs) \<longrightarrow> run_inv r"
    and "registry_start reg sid started = Inr (reg', evs')"
  shows "\<forall>sid se. reg' sid = Some se \<longrightarrow> session_inv se"
  using assms by (auto simp: registry_start_def session_inv_def split: if_splits sum.splits)

lemma server_step_inv:
  assumes "\<forall>sid se. reg sid = Some se \<longrightarrow> session_inv se"
    and "server_step cfg req reg = Inr (reg', evs)"
  shows "\<forall>sid se. reg' sid = Some se \<longrightarrow> session_inv se"
proof (cases req)
  case (Req_query sid bs)
  show ?thesis
  proof (rule registry_start_inv[OF assms(1)])
    show "\<forall>r evs. map_sum id (apfst Query_run) (query_start bs) = Inr (r, evs) \<longrightarrow> run_inv r"
      by (auto simp: map_sum_def query_start_inv split: sum.splits)
  qed (use assms(2) Req_query in simp)
next
  case (Req_debate sid topic bs n)
  show ?thesis
  proof (rule registry_start_inv[OF assms(1)])
    show "\<forall>r evs. map_sum id (apfst Debate_run)
                    (debate_start (max_participants cfg) (max_rounds cfg) topic bs n) = Inr (r, evs)
                  \<longrightarrow> run_inv r"
      by (auto simp: map_sum_def debate_start_inv split: sum.splits)
  qed (use assms(2) Req_debate in simp)
next
  case (Req_cancel sid)
  show ?thesis
  proof (cases "reg sid")
    case None
    then show ?thesis using assms Req_cancel by simp
  next
    case (Some se)
    then have "session_inv se" using assms(1) by blast
    then have "session_inv (se\<lparr>sess_cancelled := True, sess_run := fst (run_cancel (sess_run se))\<rparr>)"
      by (simp add: session_inv_def run_inv_cancel)
    then show ?thesis using assms Req_cancel Some
      by (auto simp: split_beta intro: session_inv_update)
  qed
next
  case (Req_result sid g m out)
  show ?thesis
  proof (cases "reg sid")
    case None
    then show ?thesis using assms Req_result by simp
  next
    case (Some se)
    then have "session_inv se" using assms(1) by blast
    then have "session_inv (se\<lparr>sess_run := fst (run_resolve m out (sess_run se))\<rparr>)"
      by (simp add: session_inv_def run_inv_resolve run_cancelled_resolve)
    then show ?thesis using assms Req_result Some
      by (auto simp: split_beta intro: session_inv_update split: if_splits)
  qed
qed

lemma server_apply_inv:
  "\<forall>sid se. reg sid = Some se \<longrightarrow> session_inv se \<Longrightarrow>
   \<forall>sid se. server_apply cfg req reg sid = Some se \<longrightarrow> session_inv se"
  using server_step_inv[of reg cfg req]
  by (auto simp: server_apply_def split: sum.splits)


lemma server_reachable_inv:
  "server_reachable cfg reg \<Longrightarrow> \<forall>sid se. reg sid = Some se \<longrightarrow> session_inv se"
proof (induction rule: server_reachable.induct)
  case empty
  then show ?case by simp
next
  case (step reg req)
  then show ?case using server_apply_inv by blast
qed

lemma server_apply_gen_mono:
  "reg sid = Some se \<Longrightarrow> \<exists>se'. server_apply cfg req reg sid = Some se' \<and> sess_gen se \<le> sess_gen se'"
  by (cases req)
     (auto simp: server_apply_def registry_start_def next_gen_def split_beta
           split: sum.splits option.splits if_splits)

lemma fold_server_apply_gen_mono:
  "reg sid = Some se \<Longrightarrow>
   \<exists>se'. fold (server_apply cfg) reqs reg sid = Some se' \<and> sess_gen se \<le> sess_gen se'"
proof (induction reqs arbitrary: reg se)
  case (Cons req reqs)
  obtain se1 where "server_apply cfg req reg sid = Some se1" "sess_gen se \<le> sess_gen se1"
    using server_apply_gen_mono[of reg sid se cfg req] Cons.prems by blast
  with Cons.IH[of "server_apply cfg req reg" se1] show ?case by (auto intro: le_trans)
qed simp

text \<open>C24. SessionBusy: a query or debate start on a session whose run is still active is
  rejected with SessionBusy and leaves the registry, and so the active run, unchanged.\<close>

theorem session_busy_rejected:
  assumes "session_busy reg sid"
  shows "server_step cfg (Req_query sid bs) reg = Inl SessionBusy \<and>
         server_step cfg (Req_debate sid topic bs n) reg = Inl SessionBusy \<and>
         server_apply cfg (Req_query sid bs) reg = reg \<and>
         server_apply cfg (Req_debate sid topic bs n) reg = reg"
  using assms by (simp add: registry_start_def server_apply_def)

text \<open>C25. In every registry reachable by any sequence of requests, every session's run
  satisfies its run invariant (query_inv or debate_inv), and a session whose cancellation
  flag is set has no active run.\<close>

theorem reachable_session_inv:
  assumes "server_reachable cfg reg" and "reg sid = Some se"
  shows "run_inv (sess_run se) \<and> (sess_cancelled se \<longrightarrow> \<not> run_active (sess_run se))"
  using server_reachable_inv[OF assms(1)] assms(2) run_inv_cancelled_inactive
  by (auto simp: session_inv_def)

text \<open>C26. Stale work of a superseded run: once a new run has been started on a session,
  a result of an invocation of the previous run, arriving after any further requests, is
  discarded: it changes nothing and emits nothing.\<close>

theorem stale_result_discarded:
  assumes "reg sid = Some se"
    and "req = Req_query sid bs \<or> req = Req_debate sid topic bs n"
    and "server_step cfg req reg = Inr (reg1, evs)"
    and "reg2 = fold (server_apply cfg) reqs reg1"
  shows "server_step cfg (Req_result sid (sess_gen se) m out) reg2 = Inr (reg2, [])"
proof -
  have "\<exists>se1. reg1 sid = Some se1 \<and> sess_gen se1 = Suc (sess_gen se)"
    using assms(1-3)
    by (auto simp: registry_start_def next_gen_def split: if_splits sum.splits)
  then obtain se2 where "reg2 sid = Some se2" "Suc (sess_gen se) \<le> sess_gen se2"
    using fold_server_apply_gen_mono[of reg1 sid _ cfg reqs] assms(4) by fastforce
  then show ?thesis by simp
qed


theorem session_busy_rejected_witness:
  "server_step demo_config (Req_query ''s'' [''b''])
     [''s'' \<mapsto> \<lparr>sess_cancelled = False, sess_gen = 0,
               sess_run = Query_run \<lparr>q_backends = [''a''], q_records = [''a'' \<mapsto> processing_record],
                                     q_cancelled = False, q_complete = False\<rparr>\<rparr>]
   = Inl SessionBusy"
  using session_busy_rejected[of "[''s'' \<mapsto> \<lparr>sess_cancelled = False, sess_gen = 0,
               sess_run = Query_run \<lparr>q_backends = [''a''], q_records = [''a'' \<mapsto> processing_record],
                                     q_cancelled = False, q_complete = False\<rparr>\<rparr>]" "''s''" demo_config]
  by (simp add: session_busy_def)

theorem reachable_session_inv_witness:
  "case server_apply demo_config (Req_query ''s'' [''a'']) Map.empty ''s'' of
     None \<Rightarrow> False
   | Some se \<Rightarrow> run_inv (sess_run se) \<and> (sess_cancelled se \<longrightarrow> \<not> run_active (sess_run se))"
proof -
  have reach: "server_reachable demo_config (server_apply demo_config (Req_query ''s'' [''a'']) Map.empty)"
    by (rule server_reachable.step[OF server_reachable.empty])
  obtain se where se: "server_apply demo_config (Req_query ''s'' [''a'']) Map.empty ''s'' = Some se"
    by (simp add: server_apply_def registry_start_def session_busy_def query_start_def Let_def)
  show ?thesis using reachable_session_inv[OF reach se] se by simp
qed

theorem stale_result_discarded_witness:
  "server_step demo_config (Req_result ''s'' 0 ''a'' (Outcome_ok ''late'' 5))
     (server_apply demo_config (Req_query ''s'' [''a''])
        [''s'' \<mapsto> \<lparr>sess_cancelled = False, sess_gen = 0,
                  sess_run = Query_run \<lparr>q_backends = [''a''], q_records = [''a'' \<mapsto> processing_record],
                                        q_cancelled = True, q_complete = True\<rparr>\<rparr>])
   = Inr (server_apply demo_config (Req_query ''s'' [''a''])
        [''s'' \<mapsto> \<lparr>sess_cancelled = False, sess_gen = 0,
                  sess_run = Query_run \<lparr>q_backends = [''a''], q_records = [''a'' \<mapsto> processing_record],
                                        q_cancelled = True, q_complete = True\<rparr>\<rparr>], [])"
proof -
  let ?se = "\<lparr>sess_cancelled = False, sess_gen = 0,
                  sess_run = Query_run \<lparr>q_backends = [''a''], q_records = [''a'' \<mapsto> processing_record],
                                        q_cancelled = True, q_complete = True\<rparr>\<rparr>"
  let ?reg = "[''s'' \<mapsto> ?se]"
  obtain reg1 evs where st: "server_step demo_config (Req_query ''s'' [''a'']) ?reg = Inr (reg1, evs)"
    by (simp add: registry_start_def session_busy_def query_start_def Let_def)
  have app: "server_apply demo_config (Req_query ''s'' [''a'']) ?reg = reg1"
    using st by (simp add: server_apply_def)
  have "server_step demo_config (Req_result ''s'' (sess_gen ?se) ''a'' (Outcome_ok ''late'' 5))
          (fold (server_apply demo_config) [] reg1) = Inr (fold (server_apply demo_config) [] reg1, [])"
    by (rule stale_result_discarded[OF _ _ st refl]) simp_all
  then show ?thesis using app by simp
qed

end
