(* ===== verification/System.thy ===== *)
theory System
  imports Session View
begin

text \<open>
  The composition of the backend model with the client of App.js: the events a run emits
  travel over the per-session channel, in order, to the client's socket listeners
  (\<open>on_event\<close> of \<open>Client\<close>). The abstraction \<open>records_view\<close> reads a query run's records in
  wire form; \<open>events_view\<close> is the merge the client performs on a stream of events (the
  last \<^verbatim>\<open>response_update\<close> per model). The refinement theorem states that the client's
  responses object after a submitted query equals the orchestrator's records in wire form.
  \<open>view_typed\<close> gives, key by key, the shapes of the values in \<^verbatim>\<open>debate_update\<close>
  payloads. With it, the debate display never throws on the backend's payloads.
\<close>

definition records_view :: "query_run \<Rightarrow> model_name \<rightharpoonup> response_update" where
  "records_view run m = map_option (to_wire m) (q_records run m)"

definition events_view :: "server_event list \<Rightarrow> model_name \<rightharpoonup> response_update" where
  "events_view evs = map_of (rev (map (\<lambda>d. (ru_model d, d)) (response_payloads evs)))"

text \<open>The value the client's \<^verbatim>\<open>debateState\<close> holds under key \<open>k\<close> after it has spread
  the payloads of a stream of \<^verbatim>\<open>debate_update\<close> events over its previous value \<open>v\<close>.\<close>

fun merged_key :: "jval option \<Rightarrow> string \<Rightarrow> server_event list \<Rightarrow> jval option" where
  "merged_key v k [] = v"
| "merged_key v k (Debate_update d # es) =
     merged_key (case map_of (rev d) k of Some x \<Rightarrow> Some x | None \<Rightarrow> v) k es"
| "merged_key v k (e # es) = merged_key v k es"

text \<open>The shapes of the values the backend puts into \<^verbatim>\<open>debate_update\<close> payloads, key by key,
  which are the shapes the debate display reads without throwing.\<close>

fun stmt_typed :: "jval \<Rightarrow> bool" where
  "stmt_typed (JObj [(c, JStr t), (tm, JNum d)]) = (c = ''content'' \<and> tm = ''time'')"
| "stmt_typed _ = False"

fun round_typed :: "jval \<Rightarrow> bool" where
  "round_typed (JObj kvs) = list_all (\<lambda>(b, x). stmt_typed x) kvs"
| "round_typed _ = False"

definition key_typed :: "string \<Rightarrow> jval \<Rightarrow> bool" where
  "key_typed k v =
     (if k = ''participants'' then (case v of JArr xs \<Rightarrow> True | _ \<Rightarrow> False)
      else if k = ''current_round'' \<or> k = ''total_rounds'' then (case v of JNum r \<Rightarrow> True | _ \<Rightarrow> False)
      else round_typed v)"

definition view_typed :: "jval js_object \<Rightarrow> bool" where
  "view_typed kvs = list_all (\<lambda>(k, v). key_typed k v) kvs"

definition shows_round :: "jval option \<Rightarrow> jval option \<Rightarrow> debate_run \<Rightarrow> bool" where
  "shows_round c t run \<longleftrightarrow>
     c = Some (JNum (real (length (d_rounds run)))) \<and> t = Some (JNum (real (d_total run)))"

text \<open>The client holds, for every round dispatched so far, the backend's completed
  statements of that round.\<close>

definition rounds_view_ok :: "(string \<Rightarrow> jval option) \<Rightarrow> debate_run \<Rightarrow> bool" where
  "rounds_view_ok M run \<longleftrightarrow>
     (\<forall>k < length (d_rounds run).
        M (wire_round_key (Suc k)) = Some (round_payload (d_backends run) (d_rounds run ! k)))"

lemma response_payloads_append [simp]:
  "response_payloads (xs @ ys) = response_payloads xs @ response_payloads ys"
  by (induction xs rule: response_payloads.induct) simp_all

lemma events_view_append:
  "events_view (xs @ ys) = events_view xs ++ events_view ys"
  by (simp add: events_view_def)

lemma events_view_simps [simp]:
  "events_view [] = Map.empty"
  "events_view (Response_update d # es) = [ru_model d \<mapsto> d] ++ events_view es"
  "events_view (Query_complete # es) = events_view es"
  by (simp_all add: events_view_def)

lemma response_payloads_updates [simp]:
  "response_payloads (map (\<lambda>b. Response_update (f b)) bs) = map f bs"
  by (induction bs) simp_all

lemma to_wire_model [simp]: "ru_model (to_wire m r) = m"
  by (simp add: to_wire_def)

lemma events_view_start:
  "events_view ev0 = records_view run0" if "query_start bs = Inr (run0, ev0)"
proof -
  have "events_view ev0 = map_of (map (\<lambda>b. (b, to_wire b processing_record)) (rev (first_occurrences bs)))"
   and r0: "q_records run0 = map_of (map (\<lambda>b. (b, processing_record)) (first_occurrences bs))"
    using that by (auto simp: query_start_def Let_def events_view_def comp_def rev_map split: if_splits)
  then show ?thesis
    by (simp add: records_view_def fun_eq_iff map_of_map_keys_iff)
qed

lemma records_view_resolve:
  "records_view (fst (query_resolve m out run)) =
     records_view run ++ events_view (snd (query_resolve m out run))"
  by (auto simp: query_resolve_def Let_def records_view_def fun_eq_iff map_add_def
           split: option.splits)

lemma records_view_run:
  "Q_cancel \<notin> set is \<Longrightarrow>
   records_view (fst (query_run_inputs is run)) =
     records_view run ++ events_view (snd (query_run_inputs is run))"
proof (induction "is" arbitrary: run)
  case Nil
  then show ?case by simp
next
  case (Cons i rest)
  then obtain m out where i: "i = Q_resolve m out" by (cases i) auto
  show ?case
    using Cons i by (simp add: query_run_inputs_Cons records_view_resolve events_view_append)
qed


text \<open>C27. Refinement of the backend's records by the client's view: after the client submits
  a query (handleSubmitQuery clears the responses and sends the selection), the backend
  starts a run on that selection, and the channel delivers every event of the run in order
  to the client's listeners, the client's responses object maps each model exactly to the
  backend's record for it in wire form, whatever the order and outcome of the results, as
  long as the run is not cancelled.\<close>

theorem query_view_refines_records:
  assumes "handleSubmitQuery s = (s1, [Post_query q qt sel sid])"
    and "query_start sel = Inr (run0, ev0)"
    and "Q_cancel \<notin> set is"
  shows "obj_get (responses (fold on_event (ev0 @ snd (query_run_inputs is run0)) s1)) =
           records_view (fst (query_run_inputs is run0))"
proof -
  have "responses s1 = []" using assms(1) by (auto simp: handleSubmitQuery_def split: if_splits)
  moreover have "obj_get ([] :: response_update js_object) = Map.empty" by (simp add: fun_eq_iff)
  ultimately have "obj_get (responses (fold on_event (ev0 @ snd (query_run_inputs is run0)) s1)) =
               events_view ev0 ++ events_view (snd (query_run_inputs is run0))"
    by (simp add: responses_fold_on_event events_view_def)
  then show ?thesis
    by (simp add: events_view_start[OF assms(2)] records_view_run[OF assms(3)])
qed

theorem query_view_refines_records_witness:
  "obj_get (responses (fold on_event
      ([Response_update (to_wire ''a'' processing_record), Response_update (to_wire ''b'' processing_record)] @
       snd (query_run_inputs [Q_resolve ''b'' (Outcome_failed ''e''), Q_resolve ''a'' (Outcome_ok ''t'' 1)]
              \<lparr>q_backends = [''a'', ''b''],
               q_records = map_of [(''a'', processing_record), (''b'', processing_record)],
               q_cancelled = False, q_complete = False\<rparr>))
      (fst (handleSubmitQuery ((initial_state ''s'')\<lparr>question := ''Q'', selectedModels := [''a'', ''b'']\<rparr>)))))
   ''a'' = Some (to_wire ''a'' (resolve_record (Outcome_ok ''t'' 1)))"
proof -
  let ?s = "(initial_state ''s'')\<lparr>question := ''Q'', selectedModels := [''a'', ''b'']\<rparr>"
  let ?run0 = "\<lparr>q_backends = [''a'', ''b''],
               q_records = map_of [(''a'', processing_record), (''b'', processing_record)],
               q_cancelled = False, q_complete = False\<rparr>"
  let ?is = "[Q_resolve ''b'' (Outcome_failed ''e''), Q_resolve ''a'' (Outcome_ok ''t'' 1)]"
  have sub: "handleSubmitQuery ?s = (fst (handleSubmitQuery ?s), [Post_query ''Q'' ''general'' [''a'', ''b''] ''s''])"
    by (simp add: handleSubmitQuery_def initial_state_def js_trim_def is_js_space_def)
  have st: "query_start [''a'', ''b''] =
              Inr (?run0, [Response_update (to_wire ''a'' processing_record),
                           Response_update (to_wire ''b'' processing_record)])"
    by (simp add: query_start_def first_occurrences_def)
  have "records_view (fst (query_run_inputs ?is ?run0)) ''a'' = Some (to_wire ''a'' (resolve_record (Outcome_ok ''t'' 1)))"
    by (simp add: records_view_def query_run_inputs_Cons query_resolve_def all_terminal_def
                  processing_record_def Let_def)
  then show ?thesis
    using query_view_refines_records[OF sub st, of ?is] by simp
qed


lemma debateState_fold_on_event:
  "obj_get (debateState (fold on_event es s)) k = merged_key (obj_get (debateState s) k) k es"
proof (induction es arbitrary: s)
  case (Cons e es)
  show ?case
  proof (cases e)
    case (Debate_update d)
    have "obj_get (obj_spread (debateState s) d) k =
            (case map_of (rev d) k of Some x \<Rightarrow> Some x | None \<Rightarrow> obj_get (debateState s) k)"
      by (simp add: obj_get_spread map_add_def obj_get_def split: option.splits)
    then show ?thesis using Debate_update by (simp add: on_debate_update_def Cons.IH)
  qed (simp_all add: client_simps Cons.IH)
qed simp

lemma merged_key_append:
  "merged_key v k (xs @ ys) = merged_key (merged_key v k xs) k ys"
  by (induction v k xs rule: merged_key.induct) simp_all

lemma debate_payload_round [simp]:
  "map_of (rev (debate_payload r)) ''current_round'' = Some (JNum (real (length (d_rounds r))))"
  "map_of (rev (debate_payload r)) ''total_rounds'' = Some (JNum (real (d_total r)))"
  by (simp_all add: debate_payload_def wire_round_key_def)

lemma shows_round_step:
  assumes "debate_inv run" "shows_round c t run"
  shows "shows_round (merged_key c ''current_round'' (snd (debate_step i run)))
                     (merged_key t ''total_rounds'' (snd (debate_step i run))) (fst (debate_step i run))"
proof (cases i)
  case (D_resolve m out)
  then show ?thesis using assms
    by (auto simp: debate_resolve_def Let_def shows_round_def debate_inv_def split: option.splits)
next
  case D_cancel
  have "d_rounds run \<noteq> []" using assms(1) by (simp add: debate_inv_def)
  then show ?thesis using assms D_cancel
    by (auto simp: debate_cancel_def shows_round_def)
qed

lemma shows_round_run:
  "debate_inv run \<Longrightarrow> shows_round c t run \<Longrightarrow>
   shows_round (merged_key c ''current_round'' (snd (debate_run_inputs is run)))
               (merged_key t ''total_rounds'' (snd (debate_run_inputs is run)))
               (fst (debate_run_inputs is run))"
proof (induction "is" arbitrary: run c t)
  case (Cons i rest)
  have "debate_inv (fst (debate_step i run))" using Cons.prems(1) by (rule debate_step_inv)
  with Cons.IH[OF this shows_round_step[OF Cons.prems]] show ?case
    by (simp add: debate_run_inputs_Cons merged_key_append)
qed simp


text \<open>C28. The debate display follows the backend's run: after a debate is started for n rounds
  and the channel delivers every event of the run in order, whatever results and cancels
  arrive, the client shows as current round the number of rounds the backend has
  dispatched, as total the requested n, and a progress bar of (current - 1) / n * 100 percent;
  in particular a completed debate shows (n - 1) / n of the bar.\<close>

theorem debate_display_tracks_run:
  assumes "debate_start P R topic bset n = Inr (run0, ev0)"
    and "run = fst (debate_run_inputs is run0)"
    and "s' = fold on_event (ev0 @ snd (debate_run_inputs is run0)) s"
  shows "current_round_shown s' = JNum (real (length (d_rounds run))) \<and>
         total_rounds_shown s' = JNum (real n) \<and>
         progress_width s' = Some ((real (length (d_rounds run)) - 1) / real n * 100)"
proof -
  have ev0: "ev0 = [Debate_update (debate_payload run0)]" and inv0: "debate_inv run0"
    using assms(1) debate_start_inv[OF assms(1)]
    by (auto simp: debate_start_def Let_def split: if_splits)
  have fx: "d_total run = n" using debate_start_reaches_inv[OF assms(1)] assms(2) by simp
  have "shows_round (merged_key (obj_get (debateState s) ''current_round'') ''current_round'' ev0)
                    (merged_key (obj_get (debateState s) ''total_rounds'') ''total_rounds'' ev0) run0"
    by (simp add: ev0 shows_round_def)
  from shows_round_run[OF inv0 this, of "is"]
  have "shows_round (obj_get (debateState s') ''current_round'') (obj_get (debateState s') ''total_rounds'') run"
    by (simp add: assms(2,3) debateState_fold_on_event merged_key_append)
  moreover have "0 < length (d_rounds run)" "0 < n"
    using debate_start_reaches_inv[OF assms(1)] debate_start_run[OF assms(1)] assms(2)
    by (simp_all add: debate_inv_def)
  ultimately show ?thesis
    using fx by (simp add: shows_round_def current_round_shown_def total_rounds_shown_def
                           progress_width_def js_or_def)
qed

theorem debate_display_tracks_run_witness:
  "progress_width (fold on_event
     ([Debate_update (debate_payload (debate_init ''T'' [''a''] 2))] @
      snd (debate_run_inputs [D_resolve ''a'' (Outcome_ok ''x'' 1), D_resolve ''a'' (Outcome_ok ''y'' 1)]
             (debate_init ''T'' [''a''] 2)))
     (initial_state ''s'')) = Some 50"
proof -
  have st: "debate_start 6 10 ''T'' [''a''] 2 =
              Inr (debate_init ''T'' [''a''] 2, [Debate_update (debate_payload (debate_init ''T'' [''a''] 2))])"
    by (simp add: debate_start_accepts first_occurrences_def)
  have len: "length (d_rounds (fst (debate_run_inputs [D_resolve ''a'' (Outcome_ok ''x'' 1),
                D_resolve ''a'' (Outcome_ok ''y'' 1)] (debate_init ''T'' [''a''] 2)))) = 2"
    by (simp add: debate_eval_simps)
  from debate_display_tracks_run[OF st refl refl, of "[D_resolve ''a'' (Outcome_ok ''x'' 1),
          D_resolve ''a'' (Outcome_ok ''y'' 1)]" "initial_state ''s''"] len
  show ?thesis by simp
qed

section \<open>The debate display on backend payloads\<close>

lemma set_obj_set_subset: "set (obj_set ob k v) \<subseteq> set ob \<union> {(k, v)}"
  by (induction ob) (auto split: if_splits)

lemma set_obj_spread_subset: "set (obj_spread prev data) \<subseteq> set prev \<union> set data"
proof (induction data arbitrary: prev)
  case (Cons kv data)
  have "set (obj_spread (obj_set prev (fst kv) (snd kv)) data) \<subseteq>
          set (obj_set prev (fst kv) (snd kv)) \<union> set data" by (rule Cons.IH)
  then show ?case using set_obj_set_subset[of prev "fst kv" "snd kv"] by (auto simp: split_beta)
qed simp

lemma view_typed_spread:
  "view_typed prev \<Longrightarrow> view_typed data \<Longrightarrow> view_typed (obj_spread prev data)"
  using set_obj_spread_subset[of prev data] by (auto simp: view_typed_def list_all_iff)

lemma view_typed_get:
  "view_typed kvs \<Longrightarrow> obj_get kvs k = Some v \<Longrightarrow> key_typed k v"
  by (auto simp: view_typed_def list_all_iff obj_get_def dest: map_of_SomeD)

lemma view_typed_debate_payload: "view_typed (debate_payload r)"
  by (auto simp: view_typed_def debate_payload_def key_typed_def wire_round_key_def round_payload_def
                 list_all_iff split: option.splits)

lemma debate_step_payloads:
  "Debate_update d \<in> set (snd (debate_step i run)) \<Longrightarrow> view_typed d"
  by (cases i) (auto simp: debate_resolve_def debate_cancel_def Let_def view_typed_debate_payload
                     split: option.splits if_splits)

lemma debate_run_payloads:
  "Debate_update d \<in> set (snd (debate_run_inputs is run)) \<Longrightarrow> view_typed d"
  by (induction "is" arbitrary: run) (auto simp: debate_run_inputs_Cons dest: debate_step_payloads)

lemma view_typed_fold_on_event:
  "view_typed (debateState s) \<Longrightarrow> (\<forall>d. Debate_update d \<in> set es \<longrightarrow> view_typed d) \<Longrightarrow>
   view_typed (debateState (fold on_event es s))"
proof (induction es arbitrary: s)
  case (Cons e es)
  have "view_typed (debateState (on_event e s))"
    using Cons.prems by (cases e) (auto simp: client_simps view_typed_spread)
  then show ?case using Cons by simp
qed simp

lemma those_js_ok: "\<forall>x \<in> set xs. \<not> isl x \<Longrightarrow> \<not> isl (those_js xs)"
  by (induction xs rule: those_js.induct) (auto split: sum.splits)

lemma statement_view_typed: "stmt_typed x \<Longrightarrow> \<not> isl (statement_view x)"
  by (cases x rule: stmt_typed.cases) (auto simp: statement_view_def obj_get_def)

lemma round_view_typed:
  assumes "view_typed (debateState s)" shows "\<not> isl (round_view s r)"
proof (cases "obj_get (debateState s) (round_key r)")
  case (Some v)
  have "key_typed (round_key r) v" using view_typed_get[OF assms Some] .
  then have "round_typed v" by (simp add: key_typed_def round_key_def)
  then obtain kvs where v: "v = JObj kvs" and kvs: "list_all (\<lambda>(b, x). stmt_typed x) kvs"
    by (cases v) auto
  have "\<forall>y \<in> set (map (\<lambda>(modelName, response). case statement_view response of
                                  Inl e \<Rightarrow> Inl e | Inr w \<Rightarrow> Inr (modelName, w)) (js_entries kvs)).
          \<not> isl y"
    using kvs statement_view_typed by (fastforce simp: list_all_iff split: sum.splits)
  then show ?thesis using Some v by (simp add: round_view_def those_js_ok)
qed (simp add: round_view_def)

lemma renderDebateDisplay_typed:
  assumes "view_typed (debateState s)" shows "\<not> isl (renderDebateDisplay s)"
proof -
  have p: "\<not> isl (participants_view s)"
  proof (cases "obj_get (debateState s) ''participants''")
    case (Some v)
    then have "key_typed ''participants'' v" using view_typed_get[OF assms] by blast
    then show ?thesis using Some by (cases v) (simp_all add: key_typed_def participants_view_def js_or_def)
  qed (simp add: participants_view_def js_or_def)
  have "\<forall>y \<in> set (map (\<lambda>r. case round_view s r of Inl e \<Rightarrow> Inl e | Inr v \<Rightarrow> Inr (r, v)) (rounds_shown s)).
          \<not> isl y"
  proof
    fix y assume "y \<in> set (map (\<lambda>r. case round_view s r of Inl e \<Rightarrow> Inl e | Inr v \<Rightarrow> Inr (r, v))
                               (rounds_shown s))"
    then obtain r where y: "y = (case round_view s r of Inl e \<Rightarrow> Inl e | Inr v \<Rightarrow> Inr (r, v))" by auto
    show "\<not> isl y" using round_view_typed[OF assms, of r] y by (cases "round_view s r") simp_all
  qed
  then have "\<not> isl (those_js (map (\<lambda>r. case round_view s r of Inl e \<Rightarrow> Inl e | Inr v \<Rightarrow> Inr (r, v))
                                  (rounds_shown s)))"
    by (rule those_js_ok)
  then show ?thesis using p by (auto simp: renderDebateDisplay_def split: sum.splits)
qed


text \<open>C29. The debate display is well-typed against the backend: after the client starts a
  debate (handleStartDebate clears debateState) and the backend's run for that request
  delivers its events in order, whatever results and cancels arrive, every value the
  display reads has the shape it expects, so renderDebateDisplay never throws.\<close>

theorem debate_display_renders:
  assumes "handleStartDebate s = (s1, [Post_debate topic sel rounds sid])"
    and "debate_start P R topic sel (nat rounds) = Inr (run0, ev0)"
  shows "\<not> isl (renderDebateDisplay (fold on_event (ev0 @ snd (debate_run_inputs is run0)) s1))"
proof -
  have "debateState s1 = []" using assms(1) by (auto simp: handleStartDebate_def split: if_splits)
  then have t1: "view_typed (debateState s1)" by (simp add: view_typed_def)
  have "ev0 = [Debate_update (debate_payload run0)]"
    using assms(2) by (auto simp: debate_start_def Let_def split: if_splits)
  then have "\<forall>d. Debate_update d \<in> set (ev0 @ snd (debate_run_inputs is run0)) \<longrightarrow> view_typed d"
    using debate_run_payloads view_typed_debate_payload by auto
  then show ?thesis by (intro renderDebateDisplay_typed view_typed_fold_on_event[OF t1])
qed

theorem debate_display_renders_witness:
  "\<not> isl (renderDebateDisplay (fold on_event
      ([Debate_update (debate_payload (debate_init ''T'' [''a''] 2))] @
       snd (debate_run_inputs [D_resolve ''a'' (Outcome_ok ''x'' 0)] (debate_init ''T'' [''a''] 2)))
      (fst (handleStartDebate ((initial_state ''s'')\<lparr>debateTopic := ''T'', selectedModels := [''a''],
                                                    debateRounds := 2\<rparr>)))))"
proof -
  let ?s = "(initial_state ''s'')\<lparr>debateTopic := ''T'', selectedModels := [''a''], debateRounds := 2\<rparr>"
  have sub: "handleStartDebate ?s = (fst (handleStartDebate ?s), [Post_debate ''T'' [''a''] 2 ''s''])"
    by (simp add: handleStartDebate_def initial_state_def js_trim_def is_js_space_def max_debaters_def)
  have st: "debate_start 6 10 ''T'' [''a''] (nat 2) =
              Inr (debate_init ''T'' [''a''] 2, [Debate_update (debate_payload (debate_init ''T'' [''a''] 2))])"
    by (simp add: debate_start_accepts first_occurrences_def)
  show ?thesis by (rule debate_display_renders[OF sub st])
qed




section \<open>Order of the Q\&A cards\<close>

lemma first_occurrences_append_subset:
  "set ys \<subseteq> set xs \<Longrightarrow> first_occurrences (xs @ ys) = first_occurrences xs"
proof (induction ys rule: rev_induct)
  case (snoc y ys)
  then show ?case by (simp del: append_assoc add: append_assoc[symmetric])
qed simp

lemma first_occurrences_distinct_id: "distinct xs \<Longrightarrow> first_occurrences xs = xs"
  by (simp add: first_occurrences_def distinct_remdups_id)

lemma response_keys_fold_on_event:
  "distinct (obj_keys (responses s)) \<Longrightarrow>
   obj_keys (responses (fold on_event es s)) =
     first_occurrences (obj_keys (responses s) @ map ru_model (response_payloads es))"
proof (induction es rule: rev_induct)
  case Nil
  then show ?case by (simp add: first_occurrences_distinct_id)
next
  case (snoc e es)
  have set_keys: "set (obj_keys (responses (fold on_event es s))) =
                    set (obj_keys (responses s)) \<union> set (map ru_model (response_payloads es))"
    using snoc by simp
  show ?case
    by (cases e) (use snoc set_keys in \<open>simp_all add: client_simps obj_keys_set
                                       del: append_assoc add: append_assoc[symmetric]\<close>)
qed

lemma js_entries_key_order:
  "map fst (js_entries ob) =
     filter is_array_index (map fst (js_entries ob)) @ filter (\<lambda>k. \<not> is_array_index k) (map fst ob)"
  "filter (\<lambda>k. \<not> is_array_index k) (map fst (js_entries ob)) = filter (\<lambda>k. \<not> is_array_index k) (map fst ob)"
proof -
  let ?idx = "sort_key (\<lambda>(k, v). the (dec_to_nat k)) (filter (\<lambda>(k, v). is_array_index k) ob)"
  have all: "\<forall>k \<in> set (map fst ?idx). is_array_index k" by auto
  have a: "filter is_array_index (map fst ?idx) = map fst ?idx" using all by (simp add: filter_id_conv)
  have b: "filter (\<lambda>k. \<not> is_array_index k) (map fst ?idx) = []" using all by (simp add: filter_empty_conv)
  have c: "map fst (filter (\<lambda>(k, v). \<not> is_array_index k) ob) = filter (\<lambda>k. \<not> is_array_index k) (map fst ob)"
    by (induction ob) auto
  have d: "filter is_array_index (filter (\<lambda>k. \<not> is_array_index k) (map fst ob)) = []"
    by (simp add: filter_empty_conv)
  show "map fst (js_entries ob) =
     filter is_array_index (map fst (js_entries ob)) @ filter (\<lambda>k. \<not> is_array_index k) (map fst ob)"
    using a c d by (simp add: js_entries_def)
  show "filter (\<lambda>k. \<not> is_array_index k) (map fst (js_entries ob)) = filter (\<lambda>k. \<not> is_array_index k) (map fst ob)"
    using b c by (simp add: js_entries_def)
qed

lemma query_step_models:
  "query_inv run \<Longrightarrow> d \<in> set (response_payloads (snd (query_step i run))) \<Longrightarrow> ru_model d \<in> set (q_backends run)"
  by (cases i) (auto simp: query_resolve_def query_cancel_def query_inv_def Let_def domIff
                     split: option.splits if_splits)

lemma query_run_models:
  "query_inv run \<Longrightarrow> d \<in> set (response_payloads (snd (query_run_inputs is run))) \<Longrightarrow>
   ru_model d \<in> set (q_backends run)"
proof (induction "is" arbitrary: run)
  case (Cons i rest)
  then show ?case
    using query_step_models[OF Cons.prems(1)] Cons.IH[OF query_step_inv[OF Cons.prems(1)]]
    by (auto simp: query_run_inputs_Cons)
qed simp


lemma query_start_models:
  "query_start sel = Inr (run0, ev0) \<Longrightarrow>
   map ru_model (response_payloads ev0) = first_occurrences sel \<and> q_backends run0 = first_occurrences sel"
  by (auto simp: query_start_def Let_def comp_def split: if_splits)

text \<open>C32. Card order: after the client submits a query and the backend's events for the
  run arrive in order, the Q\&A cards show exactly the selected models, and the models whose
  names are not array indices appear in selection order (duplicates removed), as the
  specification's order-preserving display requires. A model whose name is an array index
  (such as "7") is nevertheless shown before all others, because the cards follow the key
  order of Object.entries.\<close>

theorem cards_follow_selection:
  assumes "handleSubmitQuery s = (s1, [Post_query q qt sel sid])"
    and "query_start sel = Inr (run0, ev0)"
    and "s' = fold on_event (ev0 @ snd (query_run_inputs is run0)) s1"
  shows "case responses_view s' of
           None \<Rightarrow> False
         | Some cards \<Rightarrow>
             filter (\<lambda>k. \<not> is_array_index k) (map fst cards) =
               filter (\<lambda>k. \<not> is_array_index k) (first_occurrences sel) \<and>
             set (map fst cards) = set sel \<and>
             map fst cards = filter is_array_index (map fst cards) @
                             filter (\<lambda>k. \<not> is_array_index k) (map fst cards)"
proof -
  have r1: "responses s1 = []" and ne: "sel \<noteq> []"
    using assms(1) by (auto simp: handleSubmitQuery_def split: if_splits)
  have m0: "map ru_model (response_payloads ev0) = first_occurrences sel"
    and b0: "q_backends run0 = first_occurrences sel"
    using query_start_models[OF assms(2)] by simp_all
  have "set (map ru_model (response_payloads (snd (query_run_inputs is run0)))) \<subseteq> set (first_occurrences sel)"
    using query_run_models[OF query_start_inv[OF assms(2)]] b0 by auto
  then have keys: "obj_keys (responses s') = first_occurrences sel"
    using response_keys_fold_on_event[of s1 "ev0 @ snd (query_run_inputs is run0)"] r1 m0 assms(3)
    by (simp add: first_occurrences_append_subset first_occurrences_distinct_id obj_keys_def)
  then have view: "responses_view s' =
                     Some (map (\<lambda>(modelName, response). (modelName, response_body response))
                               (js_entries (responses s')))"
    using ne by (simp add: responses_view_def)
  have fst_cards: "map fst (map (\<lambda>(modelName, response). (modelName, response_body response)) xs) = map fst xs"
    for xs :: "response_update js_object" by (induction xs) auto
  have k: "map fst (responses s') = first_occurrences sel" using keys by (simp add: obj_keys_def)
  have "set (map fst (js_entries (responses s'))) = set sel"
    using arg_cong[OF k, of set] by (simp only: set_map set_js_entries set_first_occurrences)
  then show ?thesis
    unfolding view option.case fst_cards
    using js_entries_key_order[of "responses s'"] k by simp
qed

theorem cards_follow_selection_witness:
  "case responses_view (fold on_event
      ([Response_update (to_wire ''b'' processing_record), Response_update (to_wire ''7'' processing_record),
        Response_update (to_wire ''a'' processing_record)] @
       snd (query_run_inputs [Q_resolve ''a'' (Outcome_ok ''t'' 1)]
              \<lparr>q_backends = [''b'', ''7'', ''a''],
               q_records = map_of [(''b'', processing_record), (''7'', processing_record), (''a'', processing_record)],
               q_cancelled = False, q_complete = False\<rparr>))
      (fst (handleSubmitQuery ((initial_state ''s'')\<lparr>question := ''Q'', selectedModels := [''b'', ''7'', ''a'']\<rparr>)))) of
     None \<Rightarrow> False
   | Some cards \<Rightarrow>
       filter (\<lambda>k. \<not> is_array_index k) (map fst cards) =
         filter (\<lambda>k. \<not> is_array_index k) (first_occurrences [''b'', ''7'', ''a'']) \<and>
       set (map fst cards) = set [''b'', ''7'', ''a''] \<and>
       map fst cards = filter is_array_index (map fst cards) @ filter (\<lambda>k. \<not> is_array_index k) (map fst cards)"
proof -
  let ?s = "(initial_state ''s'')\<lparr>question := ''Q'', selectedModels := [''b'', ''7'', ''a'']\<rparr>"
  let ?run0 = "\<lparr>q_backends = [''b'', ''7'', ''a''],
               q_records = map_of [(''b'', processing_record), (''7'', processing_record), (''a'', processing_record)],
               q_cancelled = False, q_complete = False\<rparr>"
  let ?ev0 = "[Response_update (to_wire ''b'' processing_record), Response_update (to_wire ''7'' processing_record),
        Response_update (to_wire ''a'' processing_record)]"
  have sub: "handleSubmitQuery ?s = (fst (handleSubmitQuery ?s), [Post_query ''Q'' ''general'' [''b'', ''7'', ''a''] ''s''])"
    by (simp add: handleSubmitQuery_def initial_state_def js_trim_def is_js_space_def)
  have st: "query_start [''b'', ''7'', ''a''] = Inr (?run0, ?ev0)"
    by (simp add: query_start_def first_occurrences_def)
  show ?thesis by (rule cards_follow_selection[OF sub st refl])
qed

section \<open>The debate rounds on the client\<close>

lemma debate_payload_round_key:
  "map_of (rev (debate_payload r)) (wire_round_key j) =
     (if j = length (d_rounds r) then Some (round_payload (d_backends r) (last (d_rounds r))) else None)"
  by (simp add: debate_payload_def wire_round_key_def nat_to_dec_inj)

lemma round_payload_cancel_open:
  assumes "round_wf bs rr"
  shows "round_payload bs (map_option cancel_open \<circ> rr) = round_payload bs rr"
proof -
  have "(case (map_option cancel_open \<circ> rr) b of
           Some r \<Rightarrow> (case (rec_text r, rec_duration r) of
                        (Some t, Some d) \<Rightarrow> [(b, JObj [(''content'', JStr t), (''time'', JNum d)])] | _ \<Rightarrow> [])
         | None \<Rightarrow> []) =
        (case rr b of
           Some r \<Rightarrow> (case (rec_text r, rec_duration r) of
                        (Some t, Some d) \<Rightarrow> [(b, JObj [(''content'', JStr t), (''time'', JNum d)])] | _ \<Rightarrow> [])
         | None \<Rightarrow> [])" for b
  proof (cases "rr b")
    case (Some r)
    then have "record_wf r" "rec_status r \<noteq> St_pending"
      using assms by (auto simp: round_wf_def ran_def)
    then show ?thesis using Some
      by (cases "rec_status r")
         (auto simp: cancel_open_def cancelled_record_def record_wf_def terminal_def)
  qed simp
  then show ?thesis by (simp add: round_payload_def)
qed


lemma rounds_view_payload:
  assumes "rounds_view_ok M run" "d_backends run' = d_backends run" "d_rounds run' \<noteq> []"
    and "\<forall>k. Suc k < length (d_rounds run') \<longrightarrow> k < length (d_rounds run) \<and> d_rounds run' ! k = d_rounds run ! k"
  shows "rounds_view_ok (\<lambda>x. merged_key (M x) x [Debate_update (debate_payload run')]) run'"
  unfolding rounds_view_ok_def
proof (intro allI impI)
  fix k assume k: "k < length (d_rounds run')"
  show "merged_key (M (wire_round_key (Suc k))) (wire_round_key (Suc k)) [Debate_update (debate_payload run')] =
        Some (round_payload (d_backends run') (d_rounds run' ! k))"
  proof (cases "Suc k = length (d_rounds run')")
    case True
    then have "last (d_rounds run') = d_rounds run' ! k" using assms(3) by (simp add: last_conv_nth flip: True)
    then show ?thesis using True by (simp add: debate_payload_round_key)
  next
    case False
    then have "Suc k < length (d_rounds run')" using k by simp
    then show ?thesis using assms(1,2,4) False
      by (simp add: debate_payload_round_key rounds_view_ok_def)
  qed
qed

lemma merged_key_complete [simp]:
  "merged_key v k (es @ [Debate_complete]) = merged_key v k es"
  by (simp add: merged_key_append)

lemma rounds_view_step:
  assumes inv: "debate_inv run" and ok: "rounds_view_ok M run"
  shows "rounds_view_ok (\<lambda>x. merged_key (M x) x (snd (debate_step i run))) (fst (debate_step i run))"
proof (cases i)
  case D_cancel
  show ?thesis
  proof (cases "d_complete run")
    case True
    then show ?thesis using ok D_cancel by (simp add: debate_cancel_def rounds_view_ok_def)
  next
    case False
    have ne: "d_rounds run \<noteq> []" using inv by (simp add: debate_inv_def)
    have wf: "round_wf (d_backends run) (last (d_rounds run))"
      using inv ne by (simp add: debate_inv_def list_all_iff)
    have "rounds_view_ok M (run\<lparr>d_cancelled := True,
             d_rounds := butlast (d_rounds run) @ [map_option cancel_open \<circ> last (d_rounds run)],
             d_complete := True\<rparr>)"
      unfolding rounds_view_ok_def
    proof (intro allI impI)
      fix k assume "k < length (d_rounds (run\<lparr>d_cancelled := True,
             d_rounds := butlast (d_rounds run) @ [map_option cancel_open \<circ> last (d_rounds run)],
             d_complete := True\<rparr>))"
      then have k: "k < length (d_rounds run)" using ne by simp
      show "M (wire_round_key (Suc k)) =
            Some (round_payload (d_backends (run\<lparr>d_cancelled := True,
             d_rounds := butlast (d_rounds run) @ [map_option cancel_open \<circ> last (d_rounds run)],
             d_complete := True\<rparr>))
               (d_rounds (run\<lparr>d_cancelled := True,
             d_rounds := butlast (d_rounds run) @ [map_option cancel_open \<circ> last (d_rounds run)],
             d_complete := True\<rparr>) ! k))"
      proof -
        have Mk: "M (wire_round_key (Suc k)) = Some (round_payload (d_backends run) (d_rounds run ! k))"
          using ok k by (simp add: rounds_view_ok_def)
        show ?thesis
        proof (cases "Suc k = length (d_rounds run)")
          case True
          then have l: "last (d_rounds run) = d_rounds run ! k" using ne by (simp add: last_conv_nth flip: True)
          have "(butlast (d_rounds run) @ [map_option cancel_open \<circ> last (d_rounds run)]) ! k =
                  map_option cancel_open \<circ> last (d_rounds run)"
            using True by (auto simp: nth_append)
          then show ?thesis using Mk l round_payload_cancel_open[OF wf] by simp
        next
          case False
          then have "k < length (butlast (d_rounds run))" using k by simp
          then show ?thesis using Mk by (simp add: nth_append nth_butlast)
        qed
      qed
    qed
    then show ?thesis using False D_cancel by (simp add: debate_cancel_def)
  qed
next
  case (D_resolve m out)
  show ?thesis
  proof (cases "d_cancelled run \<or> d_complete run \<or> last (d_rounds run) m = None \<or>
                (\<exists>r. last (d_rounds run) m = Some r \<and> rec_status r \<noteq> St_processing)")
    case True
    then show ?thesis using ok D_resolve by (auto simp: debate_resolve_def)
  next
    case False
    then obtain r where r: "last (d_rounds run) m = Some r" "rec_status r = St_processing"
      and nc: "\<not> d_cancelled run" "\<not> d_complete run" by auto
    have ne: "d_rounds run \<noteq> []" using inv by (simp add: debate_inv_def)
    define cur' where "cur' = (last (d_rounds run))(m \<mapsto> resolve_record out)"
    define run1 where "run1 = run\<lparr>d_rounds := butlast (d_rounds run) @ [cur']\<rparr>"
    have ok1: "rounds_view_ok (\<lambda>x. merged_key (M x) x [Debate_update (debate_payload run1)]) run1"
      by (rule rounds_view_payload[OF ok])
         (use ne in \<open>auto simp: run1_def nth_append nth_butlast\<close>)
    define run2 where "run2 = run1\<lparr>d_rounds := d_rounds run1 @ [fresh_round (d_backends run)],
                         d_prompts := d_prompts run @ [compose_prompt (d_topic run) (d_backends run) (d_rounds run1)]\<rparr>"
    have ok2: "rounds_view_ok (\<lambda>x. merged_key (merged_key (M x) x [Debate_update (debate_payload run1)]) x
                                 [Debate_update (debate_payload run2)]) run2"
      by (rule rounds_view_payload[OF ok1]) (auto simp: run2_def run1_def nth_append)
    have len1: "length (d_rounds run1) = length (d_rounds run)" using ne by (simp add: run1_def)
    show ?thesis
      using ok1 ok2 r nc D_resolve
      by (auto simp: debate_resolve_def Let_def cur'_def run1_def run2_def rounds_view_ok_def
                     merged_key_append[symmetric] len1)
  qed
qed


lemma rounds_view_run:
  "debate_inv run \<Longrightarrow> rounds_view_ok M run \<Longrightarrow>
   rounds_view_ok (\<lambda>x. merged_key (M x) x (snd (debate_run_inputs is run))) (fst (debate_run_inputs is run))"
proof (induction "is" arbitrary: run M)
  case (Cons i rest)
  have "debate_inv (fst (debate_step i run))" using Cons.prems(1) by (rule debate_step_inv)
  from Cons.IH[OF this rounds_view_step[OF Cons.prems]] show ?case
    by (simp add: debate_run_inputs_Cons merged_key_append)
qed simp

lemma round_key_wire [simp]: "round_key k = wire_round_key k"
  by (simp add: round_key_def wire_round_key_def)

text \<open>C34. Refinement of the backend's round records by the client's debate state: after
  the client starts a debate and the backend's run for that request delivers its events in
  order, whatever results and cancels arrive, for every round k dispatched so far the
  client's debateState under round_k holds exactly the completed statements the backend
  has recorded for round k (closed rounds and the current one alike).\<close>

theorem debate_view_refines_rounds:
  assumes "handleStartDebate s = (s1, [Post_debate topic sel rounds sid])"
    and "debate_start P R topic sel (nat rounds) = Inr (run0, ev0)"
    and "run = fst (debate_run_inputs is run0)"
    and "s' = fold on_event (ev0 @ snd (debate_run_inputs is run0)) s1"
    and "0 < k" "k \<le> length (d_rounds run)"
  shows "obj_get (debateState s') (round_key k) =
           Some (round_payload (first_occurrences sel) (d_rounds run ! (k - 1)))"
proof -
  have d1: "debateState s1 = []" using assms(1) by (auto simp: handleStartDebate_def split: if_splits)
  have ev0: "ev0 = [Debate_update (debate_payload run0)]" and inv0: "debate_inv run0"
    using assms(2) debate_start_inv[OF assms(2)] by (auto simp: debate_start_def Let_def split: if_splits)
  have r0: "d_rounds run0 = [fresh_round (first_occurrences sel)]"
    and b0: "d_backends run0 = first_occurrences sel"
    using debate_start_run[OF assms(2)] by simp_all
  have "rounds_view_ok (\<lambda>x. merged_key None x ev0) run0"
    using r0 by (simp add: rounds_view_ok_def ev0 debate_payload_round_key)
  from rounds_view_run[OF inv0 this, of "is"]
  have ok: "rounds_view_ok (\<lambda>x. obj_get (debateState s') x) run"
    using assms(3,4) d1 by (simp add: debateState_fold_on_event merged_key_append)
  have "d_backends run = first_occurrences sel" using b0 assms(3) by simp
  moreover have "k - 1 < length (d_rounds run)" "Suc (k - 1) = k" using assms(5,6) by simp_all
  ultimately show ?thesis using ok unfolding rounds_view_ok_def by (metis round_key_wire)
qed

theorem debate_view_refines_rounds_witness:
  "obj_get (debateState (fold on_event
      ([Debate_update (debate_payload (debate_init ''T'' [''a''] 2))] @
       snd (debate_run_inputs [D_resolve ''a'' (Outcome_ok ''x'' 1)] (debate_init ''T'' [''a''] 2)))
      (fst (handleStartDebate ((initial_state ''s'')\<lparr>debateTopic := ''T'', selectedModels := [''a''],
                                                    debateRounds := 2\<rparr>))))) (round_key 1) =
   Some (round_payload [''a''] (d_rounds (fst (debate_run_inputs [D_resolve ''a'' (Outcome_ok ''x'' 1)]
                                                (debate_init ''T'' [''a''] 2))) ! 0))"
proof -
  let ?s = "(initial_state ''s'')\<lparr>debateTopic := ''T'', selectedModels := [''a''], debateRounds := 2\<rparr>"
  have sub: "handleStartDebate ?s = (fst (handleStartDebate ?s), [Post_debate ''T'' [''a''] 2 ''s''])"
    by (simp add: handleStartDebate_def initial_state_def js_trim_def is_js_space_def max_debaters_def)
  have st: "debate_start 6 10 ''T'' [''a''] (nat 2) =
              Inr (debate_init ''T'' [''a''] 2, [Debate_update (debate_payload (debate_init ''T'' [''a''] 2))])"
    by (simp add: debate_start_accepts first_occurrences_def)
  have len: "1 \<le> length (d_rounds (fst (debate_run_inputs [D_resolve ''a'' (Outcome_ok ''x'' 1)]
                                          (debate_init ''T'' [''a''] 2))))"
    by (simp add: debate_eval_simps)
  show ?thesis
    using debate_view_refines_rounds[OF sub st refl refl _ len] by (simp add: first_occurrences_def)
qed

section \<open>Cancellation end to end\<close>

lemma isQuerying_fold_on_event:
  "\<not> isQuerying s \<Longrightarrow> \<not> isQuerying (fold on_event es s)"
proof (induction es arbitrary: s)
  case (Cons e es)
  then show ?case by (cases e) (simp_all add: client_simps)
qed simp

lemma query_cancel_events_view [simp]: "events_view (snd (query_cancel run)) = Map.empty"
  by (simp add: query_cancel_def)

lemma query_cancel_closed: "q_cancelled (fst (query_cancel run)) \<and> q_complete (fst (query_cancel run))"
  by (simp add: query_cancel_def)

text \<open>C35. Cancellation end to end: after the client cancels (handleCancelQuery clears the
  responses and emits cancel_query) and the backend cancels the run, the responses the
  client shows are exactly the updates that were already in flight before the backend
  processed the cancel: sticky cancellation discards every later result, the cancel itself
  emits no update, and the query stays marked as not running.\<close>

theorem cancel_view_in_flight_only:
  assumes "handleCancelQuery s = (s1, [Emit_cancel_query sid])"
    and "s' = fold on_event (inflight @ snd (query_cancel run) @
                             snd (query_run_inputs is (fst (query_cancel run)))) s1"
  shows "obj_get (responses s') = events_view inflight \<and> \<not> isQuerying s'"
proof -
  have s1: "responses s1 = []" "\<not> isQuerying s1"
    using assms(1) by (auto simp: handleCancelQuery_def split: if_splits)
  have rest: "snd (query_run_inputs is (fst (query_cancel run))) = []"
    using query_run_after_cancel[of "fst (query_cancel run)" "is"] query_cancel_closed by simp
  have e: "obj_get ([] :: response_update js_object) = Map.empty" by (simp add: fun_eq_iff)
  have "obj_get (responses s') = events_view (inflight @ snd (query_cancel run))"
    using s1(1) e assms(2) rest by (simp add: responses_fold_on_event events_view_def)
  moreover have "\<not> isQuerying s'"
    unfolding assms(2) by (rule isQuerying_fold_on_event[OF s1(2)])
  ultimately show ?thesis by (simp add: events_view_append)
qed

theorem cancel_view_in_flight_only_witness:
  "obj_get (responses (fold on_event
      ([Response_update (to_wire ''a'' (resolve_record (Outcome_ok ''late'' 2)))] @
       snd (query_cancel \<lparr>q_backends = [''a'', ''b''],
                          q_records = map_of [(''a'', processing_record), (''b'', processing_record)],
                          q_cancelled = False, q_complete = False\<rparr>) @
       snd (query_run_inputs [Q_resolve ''b'' (Outcome_ok ''later'' 3)]
              (fst (query_cancel \<lparr>q_backends = [''a'', ''b''],
                          q_records = map_of [(''a'', processing_record), (''b'', processing_record)],
                          q_cancelled = False, q_complete = False\<rparr>))))
      (fst (handleCancelQuery ((initial_state ''s'')\<lparr>socket := True, isQuerying := True\<rparr>))))) ''b'' = None"
proof -
  let ?s = "(initial_state ''s'')\<lparr>socket := True, isQuerying := True\<rparr>"
  have c: "handleCancelQuery ?s = (fst (handleCancelQuery ?s), [Emit_cancel_query ''s''])"
    by (simp add: handleCancelQuery_def initial_state_def)
  show ?thesis
    using cancel_view_in_flight_only[OF c refl,
            of "[Response_update (to_wire ''a'' (resolve_record (Outcome_ok ''late'' 2)))]"]
    by (simp add: to_wire_def)
qed

end
