(* ===== verification/Spec2Isabelle.thy ===== *)
theory Spec2Isabelle
  imports Interaction System
begin

text \<open>
  \<^bold>\<open>A verification development for the React client of askmodels.\<close>

  \<^bold>\<open>The program.\<close> The repository's source is one file,
  \<^verbatim>\<open>src/ui_implementations/react_app/src/App.js\<close>: a React component \<^verbatim>\<open>App\<close> that
  lets a user pick language-model backends from a catalogue, send them one question
  (Q\&A mode) or one debate topic (debate mode), and watch the answers arrive over a
  socket.io channel. The backend that fans the work out (the orchestration core the
  specification describes) is not part of the source. The client talks to it through
  four HTTP calls (\<^verbatim>\<open>GET /api/models\<close>, \<^verbatim>\<open>POST /api/query\<close>,
  \<^verbatim>\<open>POST /api/debate/start\<close>) and the socket events \<^verbatim>\<open>response_update\<close>,
  \<^verbatim>\<open>debate_update\<close>, \<^verbatim>\<open>query_complete\<close>, \<^verbatim>\<open>debate_complete\<close>, \<^verbatim>\<open>error\<close> (in) and
  \<^verbatim>\<open>cancel_query\<close>, \<^verbatim>\<open>cancel_debate\<close> (out).

  \<^bold>\<open>Theories, in import order.\<close>
  \<^item> \<open>Prelude\<close>: the JavaScript runtime the code relies on. Objects used as
    dictionaries are association lists in key-insertion order (\<open>obj_set\<close> is
    \<^verbatim>\<open>{...prev, [k]: v}\<close>, \<open>obj_spread\<close> is \<^verbatim>\<open>{...prev, ...data}\<close>, \<open>js_entries\<close> is the
    order of \<^verbatim>\<open>Object.entries\<close>), plus \<^verbatim>\<open>||\<close> on strings, \<^verbatim>\<open>trim\<close> and decimal
    \<^verbatim>\<open>toString\<close> with its parser. It declares the collection \<open>js_simps\<close>.
  \<^item> \<open>Catalog\<close>: the catalogue record \<open>model_info\<close> and the selection updaters of
    \<^verbatim>\<open>handleModelSelect\<close>, \<^verbatim>\<open>handleSelectAll\<close>, \<^verbatim>\<open>handleClearAll\<close> and
    \<^verbatim>\<open>handleSelectDiverse\<close> (a \<^verbatim>\<open>forEach\<close> over a \<^verbatim>\<open>Set\<close>, as \<open>foldl diverse_step\<close>).
    It also holds the grouping \<^verbatim>\<open>reduce\<close> of \<^verbatim>\<open>renderModelSelection\<close> (\<open>categorize\<close>,
    whose property reads fall back to \<^verbatim>\<open>Object.prototype\<close>), and the reference
    specifications \<open>diverse_reference\<close> and \<open>category_groups\<close>.
  \<^item> \<open>Wire\<close>: the wire contract as the client sees it: JSON values \<open>jval\<close>, the
    \<^verbatim>\<open>response_update\<close> payload, server events, requests, HTTP replies and failing
    fetches.
  \<^item> \<open>Client\<close>: the component state \<open>app_state\<close> (one field per \<^verbatim>\<open>useState\<close>, and
    \<open>socket\<close> for \<^verbatim>\<open>socketRef.current\<close>). It has one definition per socket listener
    (\<open>on_response_update\<close> to \<open>on_error\<close>, dispatched by \<open>on_event\<close>) and per handler
    (\<open>handleSubmitQuery\<close>, \<open>handleStartDebate\<close>, \<open>handleCancelQuery\<close>, ...). An
    \<^verbatim>\<open>async\<close> handler is split at its \<^verbatim>\<open>await\<close> into the synchronous part, which returns
    the state and the requests sent, and the continuation \<open>_done\<close> on the reply.
    \<open>client_step\<close> dispatches one input.
  \<^item> \<open>View\<close>: what the JSX renders. It covers the model panel, the response cards, the
    debate display (progress width, rounds list, participants, round statements) and
    the dashboard (\<open>renderDashboard\<close>). It also says which controls are on screen (\<open>user_can\<close>) and
    whether the render throws (\<open>renders\<close>), using the coercions \<^verbatim>\<open>ToNumber\<close>,
    \<^verbatim>\<open>ToLength\<close>, truthiness and \<^verbatim>\<open>||\<close> on \<open>jval\<close>.
  \<^item> \<open>Interaction\<close>: reachable client states (\<open>reachable\<close>, an inductive predicate over
    \<open>client_step\<close> restricted by \<open>input_ok\<close> to the controls the screen offers) and their
    invariant \<open>client_inv\<close>.
  \<^item> \<open>Orchestrator_Query\<close>, \<open>Orchestrator_Debate\<close>, \<open>Session\<close>: the backend. It is
    not part of the source, so these theories model it from the specification (the
    map marks them spec-modelled). \<open>Orchestrator_Query\<close> has the response-record
    state machine (\<open>status_step\<close>), the query run and sticky cancellation.
    \<open>Orchestrator_Debate\<close> has the debate run with one round record per round, the
    round barrier in \<open>debate_resolve\<close>, and the prompt \<open>compose_prompt\<close> built from the
    prior rounds. It also has the round loop \<open>debate_drive\<close>, a
    \<open>partial_function (option)\<close> that awaits the open invocations of each round in turn.
    \<open>Session\<close> has the registry with \<open>SessionBusy\<close>, and a run
    generation that identifies the results of superseded runs. Each operation returns
    the events it emits.
  \<^item> \<open>System\<close>: the composition. The events of a backend run are delivered in order to
    the client's listeners (\<open>fold on_event\<close>). \<open>records_view\<close> abstracts the backend's
    records to wire form; \<open>events_view\<close> and \<open>merged_key\<close> abstract what the client
    merges from a stream of events; \<open>rounds_view_ok\<close> relates the client's
    \<open>debateState\<close> to the backend's round records.

  \<^bold>\<open>What the lemmas show.\<close>
  \<^item> The Q\&A view is a merge of self-describing events. After any delivery sequence,
    a model's card holds its last \<^verbatim>\<open>response_update\<close>, and sequences that agree
    model by model give the same view (\<open>Client\<close>).
  \<^item> Every request the client sends is well-formed: a non-blank question or topic,
    a non-empty selection, at most six debaters, the session id (\<open>Client\<close>).
  \<^item> \<^verbatim>\<open>handleSelectDiverse\<close> equals its declarative reference, and the category
    grouping is characterised completely, including its \<^verbatim>\<open>TypeError\<close> path
    (\<open>Catalog\<close>).
  \<^item> Cancellation and failures: a cancelled query's late update is shown again, and a
    failed request always ends the pending state with a message (\<open>Client\<close>).
  \<^item> The debate display: the progress width stays in \<open>[0, 100)\<close>, the rounds listed are
    \<open>1..n\<close>, and round keys are injective (\<open>View\<close>).
  \<^item> Every reachable client state keeps its selection and object keys duplicate-free. A
    query and a debate can run at once on one session id, and a refresh keeps selected
    models the catalogue no longer lists (\<open>Interaction\<close>).
  \<^item> Query runs complete once every backend has answered or the run is cancelled, with
    exactly one \<^verbatim>\<open>query_complete\<close>. Records move only along
    pending, processing, terminal, and cancellation is exact and sticky
    (\<open>Orchestrator_Query\<close>).
  \<^item> Debate runs keep the round barrier (a round is dispatched only after the previous
    one is fully terminal). Each prompt carries every earlier statement verbatim. With
    every reply arriving, a debate completes after exactly the requested rounds;
    cancellation is final. The round loop terminates for every backend oracle. Its
    measure is the rounds still to dispatch, times the number of participants plus one,
    plus the invocations still open (\<open>Orchestrator_Debate\<close>).
  \<^item> The registry rejects a start on a busy session, keeps every run's invariant, and
    discards results of superseded runs (\<open>Session\<close>).
  \<^item> Refinement: the client's responses object after a submitted, uncancelled query
    equals the backend's records in wire form. The debate display follows the
    backend's round count, so a completed debate of n rounds shows (n-1)/n of the
    progress bar. Every payload the backend sends has the shape the debate display
    reads, so that render never throws. A debate the client starts while its query
    runs on the same session id is always rejected with \<open>SessionBusy\<close>. The Q\&A
    cards show the selected models in selection order, except that names that are array
    indices come first. After the client starts a debate, whatever results and
    cancels the backend then receives, every round dispatched so far is shown under its
    \<^verbatim>\<open>round_k\<close> key with exactly the backend's statements of that round. After
    a cancel, the client shows exactly the updates that were in flight when the backend
    processed it, and the query stays not running (\<open>System\<close>).
  \<^item> A socket \<^verbatim>\<open>error\<close> event ends both kinds of run; without a message it does so
    silently, with no banner (\<open>View\<close>).

  \<^bold>\<open>Modelling choices.\<close> JavaScript numbers are \<open>real\<close> (NaN is \<open>None\<close> where a
  coercion can produce it; infinities are not modelled). Strings are HOL strings, and
  \<^verbatim>\<open>trim\<close> knows the ASCII white space only. React state updates are applied
  atomically and in order, one input at a time, as React applies functional updates.
  No fuel or bound is needed for the client. Every loop of the source is a
  \<^verbatim>\<open>forEach\<close>, \<^verbatim>\<open>reduce\<close> or \<^verbatim>\<open>map\<close> over a finite list, modelled by \<open>foldl\<close>,
  \<open>map\<close> or structural recursion. The backend's round loop is a
  \<open>partial_function (option)\<close>, whose return is proved by induction on its measure. The backend's concurrency is modelled as arbitrary
  interleavings: a run is driven by any list of inputs (results in any order,
  duplicates, cancels). Liveness is stated as completion once the needed inputs have
  arrived. The specification's open question is settled by one policy: a debate
  participant that fails stays in later rounds, and its statement is left out of the
  transcript. The per-session run generation of \<open>Session\<close> is a modelling addition;
  the specification requires stale results to be discarded but gives no run identity.

  \<^bold>\<open>Not modelled.\<close> CSS, text formatting (\<^verbatim>\<open>toFixed\<close>, emoji labels), the
  static header and navigation markup (the mode buttons are the \<open>Set_mode\<close> action),
  socket.io framing,
  reconnection, loss and duplication of events, the timing of React re-renders, the
  model backends themselves (only the outcomes of their calls), and the backend's
  timeout hook (it behaves as an observed cancellation, \<open>Outcome_cancelled\<close>).
\<close>

end
